(* ===== verification/Prelude.thy ===== *)
theory Prelude
  imports Main "HOL-Library.Word" "HOL-Library.Sublist"
begin

text \<open>
  The vocabulary every component shares.

  \<^item> machine integers (\<open>u8\<close>, \<open>u16\<close>) and the big-endian split of a 16-bit value;
  \<^item> the two ways a Rust function stops early: an \<open>Err\<close> that \<open>?\<close> hands to the caller
    (\<open>Raise\<close>) and a panic (\<open>Panic\<close>), as values of a sum type;
  \<^item> \<open>res\<close>, a result with no state, and \<open>io\<close>, a computation over an explicit state, each
    with its sequencing operation;
  \<^item> slices and array accesses that panic where Rust's panic.
\<close>

unbundle bit_operations_syntax

named_theorems io_simps \<open>evaluation of the sequencing operations\<close>
named_theorems wire_simps \<open>encoding and decoding of the wire format\<close>

section \<open>Machine integers\<close>

type_synonym u8 = "8 word"
type_synonym u16 = "16 word"
type_synonym u64 = "64 word"

text \<open>\<open>((hi as u16) << 8) | (lo as u16)\<close>, and the two casts that undo it.\<close>

definition be16 :: "u8 \<Rightarrow> u8 \<Rightarrow> u16" where
  "be16 hi lo = push_bit 8 (ucast hi) OR ucast lo"

definition hi8 :: "u16 \<Rightarrow> u8" where
  "hi8 p = ucast (drop_bit 8 p)"

definition lo8 :: "u16 \<Rightarrow> u8" where
  "lo8 p = ucast p"

lemma be16_hi8_lo8 [simp]: "be16 (hi8 p) (lo8 p) = p"
  by (rule bit_word_eqI) (auto simp: be16_def hi8_def lo8_def bit_simps)

lemma hi8_be16 [simp]: "hi8 (be16 a b) = a"
  by (rule bit_word_eqI) (auto simp: be16_def hi8_def bit_simps dest: bit_imp_le_length)

lemma lo8_be16 [simp]: "lo8 (be16 a b) = b"
  by (rule bit_word_eqI) (auto simp: be16_def lo8_def bit_simps dest: bit_imp_le_length)

lemma be16_eq_iff [simp]: "be16 a b = be16 c d \<longleftrightarrow> a = c \<and> b = d"
  by (metis hi8_be16 lo8_be16)

lemma unat_of_nat_u8 [simp]: "n < 256 \<Longrightarrow> unat (of_nat n :: u8) = n"
  by (simp add: unat_of_nat take_bit_nat_eq_self)

lemma unat_u8_le: "unat (b :: u8) \<le> 255"
proof -
  have "unat b < 2 ^ LENGTH(8)" by (rule unsigned_less)
  then show ?thesis by simp
qed

lemma unat_u8_le_256 [simp]: "unat (b :: u8) \<le> 256"
  using unat_u8_le [of b] by simp

lemma of_nat_unat_u8 [simp]: "length xs = unat (b :: u8) \<Longrightarrow> of_nat (length xs) = b"
  by simp

section \<open>Results and computations\<close>

datatype 'e stop = Raise 'e | Panic

type_synonym ('e, 'a) res = "'e stop + 'a"
type_synonym ('s, 'e, 'a) io = "'s \<Rightarrow> ('e stop + 'a) \<times> 's"

definition bindR :: "('e, 'a) res \<Rightarrow> ('a \<Rightarrow> ('e, 'b) res) \<Rightarrow> ('e, 'b) res" where
  "bindR r f = (case r of Inl e \<Rightarrow> Inl e | Inr x \<Rightarrow> f x)"

definition ret :: "'a \<Rightarrow> ('s, 'e, 'a) io" where
  "ret x = (\<lambda>s. (Inr x, s))"

definition raise :: "'e \<Rightarrow> ('s, 'e, 'a) io" where
  "raise e = (\<lambda>s. (Inl (Raise e), s))"

definition panic :: "('s, 'e, 'a) io" where
  "panic = (\<lambda>s. (Inl Panic, s))"

definition bindE :: "('s, 'e, 'a) io \<Rightarrow> ('a \<Rightarrow> ('s, 'e, 'b) io) \<Rightarrow> ('s, 'e, 'b) io" where
  "bindE m f = (\<lambda>s. case m s of (Inl e, s') \<Rightarrow> (Inl e, s') | (Inr x, s') \<Rightarrow> f x s')"

definition lift_res :: "('e, 'a) res \<Rightarrow> ('s, 'e, 'a) io" where
  "lift_res r = (\<lambda>s. (r, s))"

text \<open>A \<open>Result\<close> kept as a value instead of being propagated with \<open>?\<close>.\<close>

definition attempt :: "('s, 'e, 'a) io \<Rightarrow> ('s, 'f, 'e + 'a) io" where
  "attempt m = (\<lambda>s. case m s of
      (Inr x, s') \<Rightarrow> (Inr (Inr x), s')
    | (Inl (Raise e), s') \<Rightarrow> (Inr (Inl e), s')
    | (Inl Panic, s') \<Rightarrow> (Inl Panic, s'))"

lemma bindR_simps [simp]: "bindR (Inl e) f = Inl e" "bindR (Inr x) f = f x"
  by (simp_all add: bindR_def)

lemma ret_apply [simp, io_simps]: "ret x s = (Inr x, s)"
  by (simp add: ret_def)

lemma raise_apply [simp, io_simps]: "raise e s = (Inl (Raise e), s)"
  by (simp add: raise_def)

lemma panic_apply [simp, io_simps]: "panic s = (Inl Panic, s)"
  by (simp add: panic_def)

lemma lift_res_apply [simp, io_simps]: "lift_res r s = (r, s)"
  by (simp add: lift_res_def)

lemma bindE_apply [io_simps]:
  "bindE m f s = (case m s of (Inl e, s') \<Rightarrow> (Inl e, s') | (Inr x, s') \<Rightarrow> f x s')"
  by (simp add: bindE_def)

lemma bindE_InrI [simp]: "m s = (Inr x, s') \<Longrightarrow> bindE m f s = f x s'"
  by (simp add: bindE_def)

lemma bindE_InlI [simp]: "m s = (Inl e, s') \<Longrightarrow> bindE m f s = (Inl e, s')"
  by (simp add: bindE_def)

lemma bindE_ret [simp]: "bindE (ret x) f = f x"
  by (simp add: bindE_def ret_def)

lemma bindE_assoc: "bindE (bindE m f) g = bindE m (\<lambda>x. bindE (f x) g)"
  by (auto simp: bindE_def fun_eq_iff split: prod.splits sum.splits)

lemma bindE_eq_Inr_iff:
  "bindE m f s = (Inr y, t) \<longleftrightarrow> (\<exists>x s'. m s = (Inr x, s') \<and> f x s' = (Inr y, t))"
  by (auto simp: bindE_def split: prod.splits sum.splits)

lemma bindE_eq_Inl_iff:
  "bindE m f s = (Inl e, t) \<longleftrightarrow>
     m s = (Inl e, t) \<or> (\<exists>x s'. m s = (Inr x, s') \<and> f x s' = (Inl e, t))"
  by (auto simp: bindE_def split: prod.splits sum.splits)

lemmas bindE_invert = bindE_eq_Inr_iff bindE_eq_Inl_iff

lemma attempt_simps [simp]:
  "m s = (Inr x, s') \<Longrightarrow> attempt m s = (Inr (Inr x), s')"
  "m s = (Inl (Raise e), s') \<Longrightarrow> attempt m s = (Inr (Inl e), s')"
  "m s = (Inl Panic, s') \<Longrightarrow> attempt m s = (Inl Panic, s')"
  by (simp_all add: attempt_def)

lemma lift_res_simps [simp]:
  "lift_res (Inr x) = ret x" "lift_res (Inl (Raise e)) = raise e" "lift_res (Inl Panic) = panic"
  by (simp_all add: fun_eq_iff)

lemma attempt_pure_simps [simp]:
  "attempt (ret x) = ret (Inr x)" "attempt (raise e) = ret (Inl e)" "attempt panic = panic"
  by (simp_all add: fun_eq_iff attempt_def)

lemma attempt_lift_Inr_iff [simp]:
  "attempt (lift_res r) s = (Inr x, s') \<longleftrightarrow>
     s' = s \<and> ((\<exists>y. x = Inr y \<and> r = Inr y) \<or> (\<exists>e. x = Inl e \<and> r = Inl (Raise e)))"
  by (auto simp: attempt_def split: sum.splits stop.splits)

lemma attempt_lift_Inl_iff [simp]:
  "attempt (lift_res r) s = (Inl e, s') \<longleftrightarrow> s' = s \<and> r = Inl Panic \<and> e = Panic"
  by (auto simp: attempt_def split: sum.splits stop.splits)

lemma bindE_stop_simps [simp]:
  "bindE (raise e) f = raise e" "bindE panic f = panic"
  by (simp_all add: fun_eq_iff bindE_def)

text \<open>\<open>std::task::Poll\<close>.\<close>

datatype 'a poll = Pending | Ready 'a

section \<open>Slices and array accesses\<close>

text \<open>\<open>&xs[lo..hi]\<close>, \<open>xs[i]\<close>, \<open>xs[i] = v\<close> and \<open>xs[lo..hi].copy_from_slice(src)\<close>.\<close>

definition subslice :: "nat \<Rightarrow> nat \<Rightarrow> 'a list \<Rightarrow> ('e, 'a list) res" where
  "subslice lo hi xs =
     (if lo \<le> hi \<and> hi \<le> length xs then Inr (take (hi - lo) (drop lo xs)) else Inl Panic)"

definition index :: "'a list \<Rightarrow> nat \<Rightarrow> ('e, 'a) res" where
  "index xs i = (if i < length xs then Inr (xs ! i) else Inl Panic)"

definition store :: "'a list \<Rightarrow> nat \<Rightarrow> 'a \<Rightarrow> ('e, 'a list) res" where
  "store xs i v = (if i < length xs then Inr (xs[i := v]) else Inl Panic)"

definition overwrite :: "nat \<Rightarrow> 'a list \<Rightarrow> 'a list \<Rightarrow> 'a list" where
  "overwrite lo src xs = take lo xs @ src @ drop (lo + length src) xs"

definition copy_from_slice :: "nat \<Rightarrow> nat \<Rightarrow> 'a list \<Rightarrow> 'a list \<Rightarrow> ('e, 'a list) res" where
  "copy_from_slice lo hi src xs =
     (if lo \<le> hi \<and> hi \<le> length xs \<and> length src = hi - lo then Inr (overwrite lo src xs)
      else Inl Panic)"

lemma length_overwrite [simp]:
  "lo + length src \<le> length xs \<Longrightarrow> length (overwrite lo src xs) = length xs"
  by (simp add: overwrite_def)

lemma nth_overwrite [simp]:
  "i < length src \<Longrightarrow> overwrite 0 src xs ! i = src ! i"
  by (simp add: overwrite_def nth_append)

lemma take_overwrite [simp]:
  "lo + length src \<le> length xs \<Longrightarrow> take (lo + length src) (overwrite lo src xs) = take lo xs @ src"
  by (simp add: overwrite_def)

lemma subslice_overwrite [simp]:
  "length src = n \<Longrightarrow> subslice 0 n (overwrite 0 src xs) = Inr src"
  by (simp add: overwrite_def subslice_def)

lemma append_last_two:
  "length xs = n + 2 \<Longrightarrow> take n xs @ [xs ! n, xs ! Suc n] = xs"
  using take_Suc_conv_app_nth [of n xs] take_Suc_conv_app_nth [of "Suc n" xs] by simp

lemma length_2_conv: "length xs = 2 \<longleftrightarrow> (\<exists>a b. xs = [a, b])"
  by (auto simp: numeral_eq_Suc length_Suc_conv)

lemma length_5_conv: "length xs = 5 \<longleftrightarrow> (\<exists>a b c d e. xs = [a, b, c, d, e])"
  by (auto simp: numeral_eq_Suc length_Suc_conv)

end
