(* ===== verification/Std_Net.thy ===== *)
theory Std_Net
  imports Prelude
begin

text \<open>
  The types of Rust's standard library the program handles: IP and socket addresses
  (\<open>std::net\<close>), the error of an I/O call (\<open>std::io::Error\<close>), and \<open>std::str::from_utf8\<close>.
  A \<open>String\<close> that can hold any text is the list of its UTF-8 bytes, which is what
  \<open>len()\<close> counts and \<open>as_bytes()\<close> returns; texts the program writes itself are HOL strings.
\<close>

section \<open>Addresses\<close>

datatype ipv4 = Ipv4 u8 u8 u8 u8

datatype ipv6 = Ipv6 u16 u16 u16 u16 u16 u16 u16 u16

datatype ip_addr = V4 ipv4 | V6 ipv6

text \<open>
  A \<open>SocketAddr\<close>. The flow label and scope id of an IPv6 socket address are 0 in every
  address \<open>SocketAddr::new\<close> builds and no function of the program reads them.
\<close>

record sock_addr =
  sa_ip :: ip_addr
  sa_port :: u16

definition socket_addr :: "ip_addr \<Rightarrow> u16 \<Rightarrow> sock_addr" where
  "socket_addr ip port = \<lparr>sa_ip = ip, sa_port = port\<rparr>"

lemma socket_addr_simps [simp]:
  "sa_ip (socket_addr ip port) = ip" "sa_port (socket_addr ip port) = port"
  by (simp_all add: socket_addr_def)

lemma socket_addr_eta [simp]: "socket_addr (sa_ip a) (sa_port a) = a"
  by (simp add: socket_addr_def)

fun octets :: "ipv4 \<Rightarrow> u8 list" where
  "octets (Ipv4 a b c d) = [a, b, c, d]"

fun segments :: "ipv6 \<Rightarrow> u16 list" where
  "segments (Ipv6 a b c d e f g h) = [a, b, c, d, e, f, g, h]"

lemma length_octets [simp]: "length (octets a) = 4"
  by (cases a) simp

lemma length_segments [simp]: "length (segments a) = 8"
  by (cases a) simp

lemma octets_inject [simp]: "octets a = octets b \<longleftrightarrow> a = b"
  by (cases a; cases b) simp

lemma segments_inject [simp]: "segments a = segments b \<longleftrightarrow> a = b"
  by (cases a; cases b) simp

section \<open>I/O errors\<close>

datatype io_kind = KConnectionRefused | KWouldBlock | KUnexpectedEof | KInvalidData | KOther

text \<open>\<open>e.kind()\<close>, \<open>e.raw_os_error()\<close> and the text \<open>Display\<close> prints.\<close>

record io_error =
  io_kind :: io_kind
  io_raw :: "int option"
  io_text :: string

definition io_of_kind :: "io_kind \<Rightarrow> io_error" where
  "io_of_kind k = \<lparr>io_kind = k, io_raw = None, io_text = ''''\<rparr>"

section \<open>UTF-8\<close>

type_synonym rstring = "u8 list"

definition bytes_of :: "string \<Rightarrow> rstring" where
  "bytes_of s = map of_char s"

definition between :: "u8 \<Rightarrow> u8 \<Rightarrow> u8 \<Rightarrow> bool" where
  "between lo hi b \<longleftrightarrow> lo \<le> b \<and> b \<le> hi"

text \<open>
  The second byte of a sequence depends on the first (no overlong forms, no surrogates,
  nothing above U+10FFFF); the later ones are plain continuation bytes.
\<close>

definition second3 :: "u8 \<Rightarrow> u8 \<Rightarrow> bool" where
  "second3 b0 b1 \<longleftrightarrow>
     (if b0 = 0xE0 then between 0xA0 0xBF b1
      else if b0 = 0xED then between 0x80 0x9F b1
      else between 0x80 0xBF b1)"

definition second4 :: "u8 \<Rightarrow> u8 \<Rightarrow> bool" where
  "second4 b0 b1 \<longleftrightarrow>
     (if b0 = 0xF0 then between 0x90 0xBF b1
      else if b0 = 0xF4 then between 0x80 0x8F b1
      else between 0x80 0xBF b1)"

fun utf8_valid :: "u8 list \<Rightarrow> bool" where
  "utf8_valid [] = True"
| "utf8_valid (b0 # bs) =
     (if b0 < 0x80 then utf8_valid bs
      else if between 0xC2 0xDF b0 then
        (case bs of b1 # r \<Rightarrow> between 0x80 0xBF b1 \<and> utf8_valid r | _ \<Rightarrow> False)
      else if between 0xE0 0xEF b0 then
        (case bs of b1 # b2 # r \<Rightarrow> second3 b0 b1 \<and> between 0x80 0xBF b2 \<and> utf8_valid r
         | _ \<Rightarrow> False)
      else if between 0xF0 0xF4 b0 then
        (case bs of b1 # b2 # b3 # r \<Rightarrow>
             second4 b0 b1 \<and> between 0x80 0xBF b2 \<and> between 0x80 0xBF b3 \<and> utf8_valid r
         | _ \<Rightarrow> False)
      else False)"

lemma utf8_valid_ascii: "\<forall>b \<in> set bs. b < 0x80 \<Longrightarrow> utf8_valid bs"
  by (induction bs) simp_all

section \<open>Decimal numerals, as \<open>format!("{}", n)\<close> prints them\<close>

fun show_nat :: "nat \<Rightarrow> string" where
  "show_nat n = (if n < 10 then [char_of (48 + n)] else show_nat (n div 10) @ [char_of (48 + n mod 10)])"

declare show_nat.simps [simp del]

end
