(* ===== verification/Errors.thy ===== *)
theory Errors
  imports Std_Net
begin

text \<open>
  \<open>src/error.rs\<close> and the error type of \<open>src/outgoing.rs\<close>. The two enums name each other
  (\<open>Error::Outgoing\<close> boxes an \<open>OutgoingError\<close>, every \<open>OutgoingError\<close> carries an
  \<open>Error\<close>), so \<open>outgoing_error\<close> takes the type it
  carries as a parameter and \<open>error\<close> closes the knot. \<open>Utf8Error\<close> and \<open>AddrParseError\<close> are only
  ever wrapped and printed and carry no payload here; the TOML error is its text.
\<close>

datatype 'e outgoing_error =
    GeneralFailure 'e
  | NetworkUnreachable 'e
  | HostUnreachable 'e
  | ConnectionRefused 'e
  | TimedOut 'e

datatype error =
    Io io_error
  | Config string
  | Addr
  | Description string
  | Outgoing "error outgoing_error"
  | Utf8
  | NotConnected
  | InvalidSocks5AddrType

definition from_description :: "string \<Rightarrow> error" where
  "from_description d = Description d"

definition general :: "error \<Rightarrow> error outgoing_error" where
  "general e = GeneralFailure e"

definition network_unreachable :: "error \<Rightarrow> error outgoing_error" where
  "network_unreachable e = NetworkUnreachable e"

definition host_unreachable :: "error \<Rightarrow> error outgoing_error" where
  "host_unreachable e = HostUnreachable e"

definition connection_refused :: "error \<Rightarrow> error outgoing_error" where
  "connection_refused e = ConnectionRefused e"

definition timed_out :: "error \<Rightarrow> error outgoing_error" where
  "timed_out e = TimedOut e"

lemmas outgoing_ctor_defs =
  general_def network_unreachable_def host_unreachable_def connection_refused_def timed_out_def

text \<open>\<open>?\<close> on a \<open>std::io::Result\<close>: the derived \<open>From\<close> wraps the error.\<close>

definition io_q :: "io_error + 'a \<Rightarrow> (error, 'a) res" where
  "io_q r = (case r of Inl e \<Rightarrow> Inl (Raise (Io e)) | Inr x \<Rightarrow> Inr x)"

lemma io_q_simps [simp]: "io_q (Inl e) = Inl (Raise (Io e))" "io_q (Inr x) = Inr x"
  by (simp_all add: io_q_def)

lemma io_q_eq_iff [simp]:
  "io_q r = Inr x \<longleftrightarrow> r = Inr x"
  "io_q r = Inl p \<longleftrightarrow> (\<exists>e. r = Inl e \<and> p = Raise (Io e))"
  by (cases r; auto)+

lemma io_q_not_panic [simp]: "io_q r \<noteq> Inl Panic"
  by (cases r) simp_all

end
