(* ===== verification/Req_Addr.thy ===== *)
theory Req_Addr
  imports Errors
begin

text \<open>
  \<open>src/req_addr.rs\<close>: the address a client asks for. The three parsers take the bytes of a
  SOCKS5 request from its first address byte on; \<open>resolve_local\<close> asks the operating
  system, which is the parameter \<open>resolve\<close> (\<open>(host, port).to_socket_addrs()\<close>).
\<close>

datatype req_addr = IP sock_addr | DomainName rstring u16

definition from_addr :: "sock_addr \<Rightarrow> req_addr" where
  "from_addr a = IP a"

definition from_domain :: "rstring \<Rightarrow> u16 \<Rightarrow> req_addr" where
  "from_domain d p = DomainName d p"

fun port :: "req_addr \<Rightarrow> u16" where
  "port (IP a) = sa_port a"
| "port (DomainName d p) = p"

text \<open>
  The IPv4 parser, with the indices of the source: the port is read from bytes 3 and 4,
  byte 3 being the last octet of the host.
\<close>

definition parse_address_v4 :: "u8 list \<Rightarrow> (error, req_addr) res" where
  "parse_address_v4 bs =
     (if length bs \<noteq> 6 then Inl (Raise (from_description ''IPv4 address format error''))
      else
        let host = Ipv4 (bs ! 0) (bs ! 1) (bs ! 2) (bs ! 3);
            p = be16 (bs ! 3) (bs ! 4)
        in Inr (from_addr (socket_addr (V4 host) p)))"

definition parse_address_v6 :: "u8 list \<Rightarrow> (error, req_addr) res" where
  "parse_address_v6 bs =
     (if length bs \<noteq> 18 then Inl (Raise (from_description ''IPv6 address format error''))
      else
        let a = be16 (bs ! 0) (bs ! 1);
            b = be16 (bs ! 2) (bs ! 3);
            c = be16 (bs ! 4) (bs ! 5);
            d = be16 (bs ! 6) (bs ! 7);
            e = be16 (bs ! 8) (bs ! 9);
            f = be16 (bs ! 10) (bs ! 11);
            g = be16 (bs ! 12) (bs ! 13);
            h = be16 (bs ! 14) (bs ! 15);
            p = be16 (bs ! 16) (bs ! 17)
        in Inr (from_addr (socket_addr (V6 (Ipv6 a b c d e f g h)) p)))"

definition parse_domain :: "nat \<Rightarrow> u8 list \<Rightarrow> (error, req_addr) res" where
  "parse_domain addr_len bs =
     bindR (subslice 0 addr_len bs) (\<lambda>name.
     if \<not> utf8_valid name then Inl (Raise Utf8)
     else
       bindR (index bs addr_len) (\<lambda>hi.
       bindR (index bs (addr_len + 1)) (\<lambda>lo.
       Inr (from_domain name (be16 hi lo)))))"

definition resolve_local ::
  "(rstring \<Rightarrow> u16 \<Rightarrow> io_error + sock_addr list) \<Rightarrow> req_addr \<Rightarrow> (error, sock_addr) res" where
  "resolve_local resolve r =
     (case r of
        IP a \<Rightarrow> Inr a
      | DomainName d p \<Rightarrow>
          bindR (io_q (resolve d p)) (\<lambda>sas.
          case sas of
            [] \<Rightarrow> Inl (Raise (from_description ''Local resolve faiure''))
          | a # _ \<Rightarrow> Inr (socket_addr (sa_ip a) p)))"

definition default_req_addr :: req_addr where
  "default_req_addr = IP (socket_addr (V4 (Ipv4 127 0 0 1)) 0)"

text \<open>\<open>Display\<close>, over the printer \<open>show_ip\<close> of \<open>std::net::IpAddr\<close>.\<close>

fun display_req_addr :: "(ip_addr \<Rightarrow> rstring) \<Rightarrow> req_addr \<Rightarrow> rstring" where
  "display_req_addr show_ip (IP a) =
     show_ip (sa_ip a) @ bytes_of '':'' @ bytes_of (show_nat (unat (sa_port a)))"
| "display_req_addr show_ip (DomainName d p) =
     d @ bytes_of '':'' @ bytes_of (show_nat (unat p))"

section \<open>The wire format\<close>

text \<open>
  The reference encoding (RFC 1928, section 5): what follows the address-type byte in a
  request or a reply.
\<close>

fun host_wire :: "req_addr \<Rightarrow> u8 list" where
  "host_wire (IP a) =
     (case sa_ip a of
        V4 h \<Rightarrow> octets h
      | V6 h \<Rightarrow> concat (map (\<lambda>s. [hi8 s, lo8 s]) (segments h)))"
| "host_wire (DomainName d p) = of_nat (length d) # d"

definition port_wire :: "u16 \<Rightarrow> u8 list" where
  "port_wire p = [hi8 p, lo8 p]"

fun atyp_wire :: "req_addr \<Rightarrow> u8" where
  "atyp_wire (IP a) = (case sa_ip a of V4 _ \<Rightarrow> 1 | V6 _ \<Rightarrow> 4)"
| "atyp_wire (DomainName _ _) = 3"

definition addr_wire :: "req_addr \<Rightarrow> u8 list" where
  "addr_wire r = atyp_wire r # host_wire r @ port_wire (port r)"

lemmas wire_defs = addr_wire_def port_wire_def

lemma length_port_wire [simp]: "length (port_wire p) = 2"
  by (simp add: port_wire_def)

lemma length_v6_wire [simp]: "length (concat (map (\<lambda>s. [hi8 s, lo8 s]) (segments h))) = 16"
  by (cases h) simp

section \<open>The parsers\<close>

lemma length_6_conv: "length bs = 6 \<longleftrightarrow> (\<exists>a b c d e f. bs = [a, b, c, d, e, f])"
  by (auto simp: numeral_eq_Suc length_Suc_conv)

lemma parse_v4_eq:
  "parse_address_v4 [a, b, c, d, hi, lo] =
     Inr (IP (socket_addr (V4 (Ipv4 a b c d)) (be16 d hi)))"
  by (simp add: parse_address_v4_def from_addr_def Let_def)

lemma parse_v4_wire:
  "parse_address_v4 (octets h @ port_wire p) =
     Inr (IP (socket_addr (V4 h) (be16 (octets h ! 3) (hi8 p))))"
  by (cases h) (simp add: port_wire_def parse_v4_eq)

lemma parse_v4_inv:
  assumes "parse_address_v4 bs = Inr r"
  shows "\<exists>h p. bs = octets h @ port_wire p \<and>
    r = IP (socket_addr (V4 h) (be16 (octets h ! 3) (hi8 p)))"
proof -
  from assms have "length bs = 6" by (simp add: parse_address_v4_def split: if_splits)
  then obtain a b c d hi lo where bs: "bs = [a, b, c, d, hi, lo]" by (auto simp: length_6_conv)
  then have "bs = octets (Ipv4 a b c d) @ port_wire (be16 hi lo)" by (simp add: port_wire_def)
  with parse_v4_wire assms show ?thesis by (metis sum.inject(2))
qed

lemma parse_v6_wire:
  "parse_address_v6 (concat (map (\<lambda>s. [hi8 s, lo8 s]) (segments h)) @ port_wire p) =
     Inr (IP (socket_addr (V6 h) p))"
  by (cases h) (simp add: parse_address_v6_def from_addr_def port_wire_def Let_def)

lemma subslice_prefix [simp]: "subslice 0 (length xs) (xs @ ys) = Inr xs"
  by (simp add: subslice_def)

lemma parse_domain_wire:
  "parse_domain (length d) (d @ [hi, lo]) =
     (if utf8_valid d then Inr (DomainName d (be16 hi lo)) else Inl (Raise Utf8))"
  by (simp add: parse_domain_def index_def nth_append from_domain_def)

lemma parse_v6_inv:
  assumes ok: "parse_address_v6 bs = Inr r"
  shows "\<exists>h p. r = IP (socket_addr (V6 h) p) \<and>
    bs = concat (map (\<lambda>s. [hi8 s, lo8 s]) (segments h)) @ port_wire p"
proof -
  from ok have "length bs = 18"
    by (simp add: parse_address_v6_def split: if_splits)
  then obtain x0 x1 x2 x3 x4 x5 x6 x7 x8 x9 y0 y1 y2 y3 y4 y5 y6 y7
    where bs: "bs = [x0, x1, x2, x3, x4, x5, x6, x7, x8, x9, y0, y1, y2, y3, y4, y5, y6, y7]"
    by (auto simp: numeral_eq_Suc length_Suc_conv)
  let ?h = "Ipv6 (be16 x0 x1) (be16 x2 x3) (be16 x4 x5) (be16 x6 x7)
              (be16 x8 x9) (be16 y0 y1) (be16 y2 y3) (be16 y4 y5)"
  have wire: "bs = concat (map (\<lambda>s. [hi8 s, lo8 s]) (segments ?h)) @ port_wire (be16 y6 y7)"
    by (simp add: bs port_wire_def)
  with ok parse_v6_wire [of ?h "be16 y6 y7"] have "r = IP (socket_addr (V6 ?h) (be16 y6 y7))"
    by simp
  with wire show ?thesis by blast
qed

lemma parse_v6_eq_Inl_iff:
  "parse_address_v6 bs = Inl x \<longleftrightarrow>
     length bs \<noteq> 18 \<and> x = Raise (from_description ''IPv6 address format error'')"
  by (auto simp: parse_address_v6_def Let_def)

lemma parse_domain_eq:
  "parse_domain n bs =
     (if length bs < n then Inl Panic
      else if \<not> utf8_valid (take n bs) then Inl (Raise Utf8)
      else if length bs < n + 2 then Inl Panic
      else Inr (DomainName (take n bs) (be16 (bs ! n) (bs ! (n + 1)))))"
  by (auto simp: parse_domain_def subslice_def index_def from_domain_def)

section \<open>Properties\<close>

text \<open>
  C24. The IPv4 parser on every input: it accepts exactly the encodings of an IPv4 host and a port,
  and returns the host with a port that is made of the last octet of the host and the first
  byte of the port sent (bytes 3 and 4 of the encoding, instead of 4 and 5); so what it returns
  is what was sent only when both bytes of the port equal the last octet of the host.
\<close>

theorem parse_v4_port_slip:
  "(parse_address_v4 bs = Inr r \<longleftrightarrow>
     (\<exists>h p. bs = octets h @ port_wire p \<and>
        r = IP (socket_addr (V4 h) (be16 (octets h ! 3) (hi8 p))))) \<and>
   (parse_address_v4 (octets h @ port_wire p) = Inr (IP (socket_addr (V4 h) p)) \<longleftrightarrow>
     hi8 p = octets h ! 3 \<and> lo8 p = octets h ! 3)"
proof (intro conjI)
  show "parse_address_v4 bs = Inr r \<longleftrightarrow>
     (\<exists>h p. bs = octets h @ port_wire p \<and>
        r = IP (socket_addr (V4 h) (be16 (octets h ! 3) (hi8 p))))"
    using parse_v4_wire parse_v4_inv by metis
  show "parse_address_v4 (octets h @ port_wire p) = Inr (IP (socket_addr (V4 h) p)) \<longleftrightarrow>
     hi8 p = octets h ! 3 \<and> lo8 p = octets h ! 3"
    unfolding parse_v4_wire by (metis be16_eq_iff be16_hi8_lo8 socket_addr_simps(2) req_addr.inject(1) sum.inject(2))
qed

text \<open>
  C23. The IPv6 parser inverts the wire format: it accepts exactly the encodings of a socket
  address, and returns the encoded address and port.
\<close>

theorem parse_v6_exact:
  "parse_address_v6 bs = Inr r \<longleftrightarrow>
     (\<exists>h p. r = IP (socket_addr (V6 h) p) \<and>
        bs = concat (map (\<lambda>s. [hi8 s, lo8 s]) (segments h)) @ port_wire p)"
  by (auto simp: parse_v6_wire dest: parse_v6_inv)

text \<open>
  C25. The domain parser inverts the wire format: told a length, it accepts exactly the inputs
  that begin with a valid UTF-8 name of that length and a port, in network byte order, and
  returns this name and this port. The address is the one whose encoding, behind its length
  byte, the input begins with.
\<close>

theorem parse_domain_exact:
  "parse_domain n bs = Inr r \<longleftrightarrow>
     (\<exists>d p rest. r = DomainName d p \<and> length d = n \<and> utf8_valid d \<and>
        of_nat n # bs = host_wire r @ port_wire (port r) @ rest)"
  (is "_ \<longleftrightarrow> ?enc")
proof
  assume ok: "parse_domain n bs = Inr r"
  then have n: "n + 2 \<le> length bs" "utf8_valid (take n bs)"
    and r: "r = DomainName (take n bs) (be16 (bs ! n) (bs ! (n + 1)))"
    by (auto simp: parse_domain_eq split: if_splits)
  have "bs = take n bs @ [bs ! n, bs ! Suc n] @ drop (n + 2) bs"
    using n(1) by (metis Cons_nth_drop_Suc Suc_le_lessD add_2_eq_Suc' append_Cons append_Nil append_take_drop_id
        Suc_leD)
  with n r show ?enc by (force simp: port_wire_def)
next
  assume ?enc
  then show "parse_domain n bs = Inr r"
    by (auto simp: parse_domain_eq port_wire_def nth_append)
qed

text \<open>
  Local resolution never changes the port the client asked for, whatever port the resolver
  returns.
\<close>

lemma resolve_local_port:
  assumes "resolve_local resolve r = Inr a"
  shows "sa_port a = port r"
  using assms
  by (cases r) (auto simp: resolve_local_def bindR_def split: sum.splits list.splits)

end
