(* ===== verification/Transport.thy ===== *)
theory Transport
  imports Std_Net
begin

text \<open>
  The TCP stream of tokio, which is not part of this repository: a record of the calls the
  program makes on it, over an abstract stream state. \<open>read_exact\<close> of a buffer of \<open>n\<close>
  bytes is a call with \<open>n\<close> that returns the bytes it filled the buffer with. A call that
  never completes is not represented: the calls are those whose await returned.

  \<^item> \<open>byte_stream\<close>: what tokio documents of the two calls, read off two observations,
    the bytes received so far and the bytes sent so far;
  \<^item> \<open>scripted_stream\<close>: a byte stream whose peer has sent a fixed input and which takes
    every write;
  \<^item> \<open>mem_tcp\<close>: a stream held in memory, the reference a scripted stream is compared to.
\<close>

record 's tcp =
  tcp_read_exact :: "nat \<Rightarrow> 's \<Rightarrow> (io_error + u8 list) \<times> 's"
  tcp_write_all :: "u8 list \<Rightarrow> 's \<Rightarrow> (io_error + unit) \<times> 's"
  tcp_local_addr :: "'s \<Rightarrow> io_error + sock_addr"
  tcp_peer_addr :: "'s \<Rightarrow> io_error + sock_addr"

locale byte_stream =
  fixes T :: "'s tcp"
    and rcvd :: "'s \<Rightarrow> u8 list"
    and sent :: "'s \<Rightarrow> u8 list"
  assumes read_ok: "tcp_read_exact T n s = (Inr bs, s') \<Longrightarrow>
      length bs = n \<and> rcvd s' = rcvd s @ bs \<and> sent s' = sent s"
    and read_err: "tcp_read_exact T n s = (Inl e, s') \<Longrightarrow> sent s' = sent s"
    and write_ok: "tcp_write_all T bs s = (Inr u, s') \<Longrightarrow>
      sent s' = sent s @ bs \<and> rcvd s' = rcvd s"
    and write_err: "tcp_write_all T bs s = (Inl e, s') \<Longrightarrow>
      \<exists>k. sent s' = sent s @ take k bs"

locale scripted_stream = byte_stream T rcvd sent
  for T :: "'s tcp" and rcvd sent +
  fixes unread :: "'s \<Rightarrow> u8 list"
  assumes read_available: "n \<le> length (unread s) \<Longrightarrow>
      \<exists>s'. tcp_read_exact T n s = (Inr (take n (unread s)), s') \<and> unread s' = drop n (unread s)"
    and write_taken: "\<exists>s'. tcp_write_all T bs s = (Inr (), s') \<and> unread s' = unread s"

section \<open>A stream in memory\<close>

record mem_stream =
  ms_in :: "u8 list"
  ms_read :: "u8 list"
  ms_out :: "u8 list"

definition mem_of :: "u8 list \<Rightarrow> mem_stream" where
  "mem_of bs = \<lparr>ms_in = bs, ms_read = [], ms_out = []\<rparr>"

definition mem_read :: "nat \<Rightarrow> mem_stream \<Rightarrow> (io_error + u8 list) \<times> mem_stream" where
  "mem_read n m =
     (if n \<le> length (ms_in m)
      then (Inr (take n (ms_in m)),
            m\<lparr>ms_in := drop n (ms_in m), ms_read := ms_read m @ take n (ms_in m)\<rparr>)
      else (Inl (io_of_kind KUnexpectedEof), m))"

definition mem_write :: "u8 list \<Rightarrow> mem_stream \<Rightarrow> (io_error + unit) \<times> mem_stream" where
  "mem_write bs m = (Inr (), m\<lparr>ms_out := ms_out m @ bs\<rparr>)"

definition mem_tcp :: "mem_stream tcp" where
  "mem_tcp = \<lparr>tcp_read_exact = mem_read, tcp_write_all = mem_write,
     tcp_local_addr = (\<lambda>_. Inr (socket_addr (V4 (Ipv4 127 0 0 1)) 1080)),
     tcp_peer_addr = (\<lambda>_. Inr (socket_addr (V4 (Ipv4 127 0 0 1)) 50000))\<rparr>"

lemma mem_tcp_simps [simp]:
  "tcp_read_exact mem_tcp = mem_read" "tcp_write_all mem_tcp = mem_write"
  "tcp_local_addr mem_tcp m = Inr (socket_addr (V4 (Ipv4 127 0 0 1)) 1080)"
  "tcp_peer_addr mem_tcp m = Inr (socket_addr (V4 (Ipv4 127 0 0 1)) 50000)"
  by (simp_all add: mem_tcp_def)

interpretation mem: scripted_stream mem_tcp ms_read ms_out ms_in
  by unfold_locales (auto simp: mem_read_def mem_write_def split: if_splits)

lemma mem_scripted: "scripted_stream mem_tcp ms_read ms_out ms_in"
  by (rule mem.scripted_stream_axioms)

lemma mem_bytes: "byte_stream mem_tcp ms_read ms_out"
  by (rule mem.byte_stream_axioms)

end
