(* ===== verification/Socks5.thy ===== *)
theory Socks5
  imports Req_Addr Transport
begin

text \<open>
  \<open>src/socks5/mod.rs\<close> and the connection half of \<open>src/socks5/incoming.rs\<close>: the protocol
  constants, the reply codes, and the handshake of one accepted client
  (\<open>Socks5Connected\<close>) over a TCP stream given by its operations \<open>T\<close>.
  Every operation is a computation over the connection's record; its stream is an
  \<open>Option\<close> that \<open>ready_for_connect\<close> empties. The buffers of the source are lists of
  their fixed length, and a slice out of their range panics.
\<close>

section \<open>Constants and enums (mod.rs)\<close>

definition SOCKS5_PROTOCOL :: u8 where "SOCKS5_PROTOCOL = 5"
definition SOCKS5_NO_AUTH :: u8 where "SOCKS5_NO_AUTH = 0"
definition SOCKS5_NO_ACCEPTABLE_METHOD :: u8 where "SOCKS5_NO_ACCEPTABLE_METHOD = 0xff"
definition SOCKS5_CMD_CONNECT :: u8 where "SOCKS5_CMD_CONNECT = 1"

lemmas socks5_consts =
  SOCKS5_PROTOCOL_def SOCKS5_NO_AUTH_def SOCKS5_NO_ACCEPTABLE_METHOD_def SOCKS5_CMD_CONNECT_def

datatype socks5_error =
    S5Success
  | S5GeneralProxyFailure
  | S5NetworkUnreachable
  | S5HostUnreachable
  | S5ConnectionRefused
  | S5TTLExpired
  | S5CommandNotSupported
  | S5AddressTypeNotSupported

text \<open>\<open>err as u8\<close>.\<close>

fun reply_code :: "socks5_error \<Rightarrow> u8" where
  "reply_code S5Success = 0"
| "reply_code S5GeneralProxyFailure = 1"
| "reply_code S5NetworkUnreachable = 3"
| "reply_code S5HostUnreachable = 4"
| "reply_code S5ConnectionRefused = 5"
| "reply_code S5TTLExpired = 6"
| "reply_code S5CommandNotSupported = 7"
| "reply_code S5AddressTypeNotSupported = 8"

text \<open>The codes are distinct and order the enum, success first.\<close>

lemma reply_code_eq_iff [simp]: "reply_code x = reply_code y \<longleftrightarrow> x = y"
  by (cases x; cases y) simp_all

instantiation socks5_error :: linorder
begin

definition less_eq_socks5_error :: "socks5_error \<Rightarrow> socks5_error \<Rightarrow> bool" where
  "less_eq_socks5_error x y \<longleftrightarrow> reply_code x \<le> reply_code y"

definition less_socks5_error :: "socks5_error \<Rightarrow> socks5_error \<Rightarrow> bool" where
  "less_socks5_error x y \<longleftrightarrow> reply_code x < reply_code y"

instance
  by standard (auto simp: less_eq_socks5_error_def less_socks5_error_def not_le [symmetric])

end

lemma success_least [simp]: "S5Success \<le> e"
  by (simp add: less_eq_socks5_error_def)

datatype socks5_addr_type = IPV4 | IPV6 | DOMAIN

fun addr_type_code :: "socks5_addr_type \<Rightarrow> u8" where
  "addr_type_code IPV4 = 1"
| "addr_type_code IPV6 = 4"
| "addr_type_code DOMAIN = 3"

definition try_from :: "u8 \<Rightarrow> error + socks5_addr_type" where
  "try_from i =
     (if i = 1 then Inr IPV4
      else if i = 3 then Inr DOMAIN
      else if i = 4 then Inr IPV6
      else Inl InvalidSocks5AddrType)"

section \<open>One connected client (incoming.rs)\<close>

record 's socks5_connected =
  local_addr :: sock_addr
  remote_addr :: sock_addr
  stream :: "'s option"

definition get_reason :: "error outgoing_error \<Rightarrow> socks5_error" where
  "get_reason err =
     (case err of
        GeneralFailure _ \<Rightarrow> S5GeneralProxyFailure
      | NetworkUnreachable _ \<Rightarrow> S5NetworkUnreachable
      | HostUnreachable _ \<Rightarrow> S5HostUnreachable
      | ConnectionRefused _ \<Rightarrow> S5ConnectionRefused
      | TimedOut _ \<Rightarrow> S5TTLExpired)"

definition read_exact ::
  "'s tcp \<Rightarrow> nat \<Rightarrow> ('s socks5_connected, error, u8 list) io" where
  "read_exact T n c =
     (case stream c of
        Some s \<Rightarrow> (case tcp_read_exact T n s of (r, s') \<Rightarrow> (io_q r, c\<lparr>stream := Some s'\<rparr>))
      | None \<Rightarrow> (Inl (Raise NotConnected), c))"

definition write_all ::
  "'s tcp \<Rightarrow> u8 list \<Rightarrow> ('s socks5_connected, error, unit) io" where
  "write_all T bs c =
     (case stream c of
        Some s \<Rightarrow> (case tcp_write_all T bs s of (r, s') \<Rightarrow> (io_q r, c\<lparr>stream := Some s'\<rparr>))
      | None \<Rightarrow> (Inl (Raise NotConnected), c))"

text \<open>\<open>self.read_exact(&mut buf[lo..hi])\<close>: the buffer after the call.\<close>

definition read_into ::
  "'s tcp \<Rightarrow> u8 list \<Rightarrow> nat \<Rightarrow> nat \<Rightarrow> ('s socks5_connected, error, u8 list) io" where
  "read_into T buf lo hi =
     (if lo \<le> hi \<and> hi \<le> length buf
      then bindE (read_exact T (hi - lo)) (\<lambda>bs. ret (overwrite lo bs buf))
      else panic)"

definition not_socks5 :: "u8 \<Rightarrow> error" where
  "not_socks5 p = from_description (''Not SOCKS5 protocol - '' @ show_nat (unat p))"

definition authenticate_client :: "'s tcp \<Rightarrow> ('s socks5_connected, error, unit) io" where
  "authenticate_client T =
     bindE (read_into T (replicate 256 0) 0 2) (\<lambda>buf.
     let p = buf ! 0 in
     if p \<noteq> SOCKS5_PROTOCOL then raise (not_socks5 p)
     else
       let num_auth_methods = buf ! 1 in
       bindE (read_into T buf 0 (unat num_auth_methods)) (\<lambda>buf.
       bindE (lift_res (subslice 0 (unat num_auth_methods) buf)) (\<lambda>authenticate_methods.
       if SOCKS5_NO_AUTH \<notin> set authenticate_methods then
         bindE (write_all T [SOCKS5_PROTOCOL, SOCKS5_NO_ACCEPTABLE_METHOD]) (\<lambda>_.
         raise (from_description ''No supported method given''))
       else write_all T [SOCKS5_PROTOCOL, SOCKS5_NO_AUTH])))"

text \<open>
  The reply: the segments of an IPv6 host are stored by a loop over a running position; the
  length byte of a domain is \<open>domain.len() as u8\<close>, which wraps.
\<close>

fun store_segments :: "nat \<Rightarrow> u16 list \<Rightarrow> u8 list \<Rightarrow> (error, u8 list \<times> nat) res" where
  "store_segments pos [] resp = Inr (resp, pos)"
| "store_segments pos (seg # segs) resp =
     bindR (store resp pos (hi8 seg)) (\<lambda>resp.
     bindR (store resp (pos + 1) (lo8 seg)) (\<lambda>resp.
     store_segments (pos + 2) segs resp))"

definition build_response :: "socks5_error \<Rightarrow> req_addr \<Rightarrow> (error, u8 list) res" where
  "build_response err addr =
     (let resp = (replicate (256 + 5) 0)[0 := 5, 1 := reply_code err, 2 := 0] in
      bindR (case addr of
          IP a \<Rightarrow>
            (case sa_ip a of
               V4 ip \<Rightarrow>
                 bindR (copy_from_slice 4 8 (octets ip) (resp[3 := addr_type_code IPV4]))
                   (\<lambda>resp. Inr (resp, 8))
             | V6 ip \<Rightarrow> store_segments 4 (segments ip) (resp[3 := addr_type_code IPV6]))
        | DomainName domain _ \<Rightarrow>
            let resp = resp[3 := addr_type_code DOMAIN, 4 := of_nat (length domain)];
                pos = 5 + unat (resp ! 4)
            in bindR (copy_from_slice 5 pos domain resp) (\<lambda>resp. Inr (resp, pos)))
      (\<lambda>(resp, pos).
      bindR (store resp pos (hi8 (port addr))) (\<lambda>resp.
      bindR (store resp (pos + 1) (lo8 (port addr))) (\<lambda>resp.
      subslice 0 (pos + 2) resp))))"

definition send_final_response ::
  "'s tcp \<Rightarrow> socks5_error \<Rightarrow> req_addr \<Rightarrow> ('s socks5_connected, error, unit) io" where
  "send_final_response T err addr =
     bindE (lift_res (build_response err addr)) (\<lambda>resp.
     bindE (write_all T resp) (\<lambda>_.
     ret ()))"

text \<open>
  The \<open>match Socks5AddrType::try_from(atyp)\<close> of \<open>get_request\<close>: a failed read is
  propagated, while the \<open>Result\<close> of a parser, like the \<open>Err\<close> of an unknown address
  type, is the value of the \<open>match\<close>. \<open>debug_on\<close> says whether the logger prints at level
  \<open>debug\<close>: only then is the argument of \<open>debug!\<close>, an \<open>unwrap\<close>, evaluated.
\<close>

definition request_addr ::
  "'s tcp \<Rightarrow> bool \<Rightarrow> u8 list \<Rightarrow> ('s socks5_connected, error, error + req_addr) io" where
  "request_addr T debug_on buf =
     (let atyp = buf ! 3; b0 = buf ! 4 in
      case try_from atyp of
        Inr IPV4 \<Rightarrow>
          bindE (read_into T buf 5 10) (\<lambda>buf.
          bindE (lift_res (subslice 4 10 buf)) (\<lambda>bs.
          attempt (lift_res (parse_address_v4 bs))))
      | Inr IPV6 \<Rightarrow>
          bindE (read_into T buf 5 22) (\<lambda>buf.
          bindE (lift_res (subslice 4 22 buf)) (\<lambda>bs.
          attempt (lift_res (parse_address_v6 bs))))
      | Inr DOMAIN \<Rightarrow>
          let addr_len = unat b0 in
          bindE (read_into T buf 0 (addr_len + 2)) (\<lambda>buf.
          bindE (lift_res (subslice 0 (addr_len + 2) buf)) (\<lambda>addr.
          bindE (attempt (lift_res (parse_domain addr_len addr))) (\<lambda>r.
          if debug_on \<and> isl r then panic else ret r)))
      | Inl e \<Rightarrow>
          bindE (send_final_response T S5AddressTypeNotSupported default_req_addr) (\<lambda>_.
          ret (Inl e)))"

definition get_request :: "'s tcp \<Rightarrow> bool \<Rightarrow> ('s socks5_connected, error, req_addr) io" where
  "get_request T debug_on =
     bindE (read_into T (replicate 255 0) 0 5) (\<lambda>buf.
     let p = buf ! 0 in
     if p \<noteq> SOCKS5_PROTOCOL then raise (not_socks5 p)
     else
       let cmd = buf ! 1 in
       if cmd \<noteq> SOCKS5_CMD_CONNECT then
         bindE (send_final_response T S5CommandNotSupported default_req_addr) (\<lambda>_.
         raise (from_description ''req cmd is not connect''))
       else
         bindE (request_addr T debug_on buf) (\<lambda>addr.
         case addr of
           Inl e \<Rightarrow>
             bindE (send_final_response T S5AddressTypeNotSupported default_req_addr) (\<lambda>_.
             raise e)
         | Inr r \<Rightarrow> ret r))"

definition next_request :: "'s tcp \<Rightarrow> bool \<Rightarrow> ('s socks5_connected, error, req_addr) io" where
  "next_request T debug_on =
     bindE (authenticate_client T) (\<lambda>_. get_request T debug_on)"

definition abort ::
  "'s tcp \<Rightarrow> error outgoing_error \<Rightarrow> req_addr \<Rightarrow> ('s socks5_connected, error, unit) io" where
  "abort T err req = send_final_response T (get_reason err) req"

text \<open>\<open>self.stream.take().unwrap()\<close>.\<close>

definition take_stream :: "('s socks5_connected, error, 's) io" where
  "take_stream c =
     (case stream c of
        Some s \<Rightarrow> (Inr s, c\<lparr>stream := None\<rparr>)
      | None \<Rightarrow> (Inl Panic, c\<lparr>stream := None\<rparr>))"

definition ready_for_connect ::
  "'s tcp \<Rightarrow> req_addr \<Rightarrow> ('s socks5_connected, error, 's) io" where
  "ready_for_connect T req =
     bindE (send_final_response T S5Success req) (\<lambda>_. take_stream)"

end
