(* ===== verification/Socks5_Reply.thy ===== *)
theory Socks5_Reply
  imports Socks5
begin

text \<open>
  The reply builder against the wire format. \<open>written resp pos w\<close> says that the first
  \<open>pos\<close> bytes of the 261-byte buffer are \<open>w\<close>; every store of the builder extends it, and the
  builder as a whole computes \<open>reply_wire\<close>, the reply RFC 1928 prescribes, unless the name
  does not fit the buffer, where it panics.
\<close>

definition written :: "u8 list \<Rightarrow> nat \<Rightarrow> u8 list \<Rightarrow> bool" where
  "written resp pos w \<longleftrightarrow> length resp = 261 \<and> length w = pos \<and> take pos resp = w"

definition reply_wire :: "socks5_error \<Rightarrow> req_addr \<Rightarrow> u8 list" where
  "reply_wire err addr = [SOCKS5_PROTOCOL, reply_code err, 0] @ addr_wire addr"

fun fits_reply :: "req_addr \<Rightarrow> bool" where
  "fits_reply (IP _) = True"
| "fits_reply (DomainName d _) = (length d \<le> 254)"

lemma written_store:
  assumes "written resp pos w" and "pos < 261"
  shows "store resp pos v = Inr (resp[pos := v])" and "written (resp[pos := v]) (Suc pos) (w @ [v])"
  using assms by (auto simp: written_def store_def take_Suc_conv_app_nth)

lemma written_copy:
  assumes "written resp pos w" and "pos + length d \<le> 261"
  shows "copy_from_slice pos (pos + length d) d resp = Inr (overwrite pos d resp)"
    and "written (overwrite pos d resp) (pos + length d) (w @ d)"
  using assms by (auto simp: written_def copy_from_slice_def)

lemma written_segments:
  assumes "written resp pos w" and "pos + 2 * length ss \<le> 261"
  shows "\<exists>resp'. store_segments pos ss resp = Inr (resp', pos + 2 * length ss) \<and>
    written resp' (pos + 2 * length ss) (w @ concat (map (\<lambda>s. [hi8 s, lo8 s]) ss))"
  using assms
proof (induction ss arbitrary: resp pos w)
  case Nil
  then show ?case by simp
next
  case (Cons s ss)
  let ?r1 = "resp[pos := hi8 s]"
  let ?r2 = "?r1[Suc pos := lo8 s]"
  have s1: "store resp pos (hi8 s) = Inr ?r1" and w1: "written ?r1 (Suc pos) (w @ [hi8 s])"
    using Cons.prems by (auto intro: written_store)
  have s2: "store ?r1 (Suc pos) (lo8 s) = Inr ?r2"
    and w2: "written ?r2 (Suc (Suc pos)) ((w @ [hi8 s]) @ [lo8 s])"
    using written_store [OF w1] Cons.prems(2) by auto
  from Cons.IH [OF w2] Cons.prems(2) show ?case
    by (simp add: s1 s2)
qed

lemma written_port:
  assumes "written resp pos w" and "pos \<le> 259"
  shows "bindR (store resp pos a) (\<lambda>resp. bindR (store resp (Suc pos) b)
      (\<lambda>resp. subslice 0 (Suc (Suc pos)) resp)) = Inr (w @ [a, b])"
proof -
  let ?r1 = "resp[pos := a]"
  have s1: "store resp pos a = Inr ?r1" and w1: "written ?r1 (Suc pos) (w @ [a])"
    using assms by (auto intro: written_store)
  have s2: "store ?r1 (Suc pos) b = Inr (?r1[Suc pos := b])"
    and w2: "written (?r1[Suc pos := b]) (Suc (Suc pos)) ((w @ [a]) @ [b])"
    using written_store [OF w1] assms(2) by auto
  from w2 assms(2) show ?thesis
    by (simp add: s1 s2 subslice_def written_def)
qed

lemma port_overflow:
  "length resp = 261 \<Longrightarrow> bindR (store resp 260 a) (\<lambda>resp. bindR (store resp (Suc 260) b) f) = Inl Panic"
  by (simp add: store_def)

text \<open>The header: the four bytes before the host.\<close>

definition zeros :: "u8 list" where
  "zeros = replicate 261 0"

lemma fold_zeros: "replicate 261 0 = zeros"
  by (simp add: zeros_def)

lemma length_zeros [simp]: "length zeros = 261"
  by (simp add: zeros_def)

lemma written_header:
  "written (zeros[0 := 5, Suc 0 := c, 2 := 0, 3 := t]) 4 [5, c, 0, t]"
proof -
  have "take 4 zeros = [0, 0, 0, 0]"
    by (simp add: zeros_def eval_nat_numeral)
  then show ?thesis
    by (simp add: written_def zeros_def take_update_swap eval_nat_numeral)
qed

lemmas build_simps = build_response_def reply_wire_def wire_defs socks5_consts fold_zeros

lemma build_response_v4:
  assumes "sa_ip a = V4 h"
  shows "build_response err (IP a) = Inr (reply_wire err (IP a))"
proof -
  let ?hd = "zeros[0 := 5, Suc 0 := reply_code err, 2 := 0, 3 := (1 :: u8)]"
  have c: "copy_from_slice 4 8 (octets h) ?hd = (Inr (overwrite 4 (octets h) ?hd) :: (error, u8 list) res)"
    and w: "written (overwrite 4 (octets h) ?hd) 8 ([5, reply_code err, 0, 1] @ octets h)"
    using written_copy [OF written_header, of "octets h"] by simp_all
  from written_port [OF w] c show ?thesis
    by (simp add: assms build_simps)
qed

lemma build_response_v6:
  assumes "sa_ip a = V6 h"
  shows "build_response err (IP a) = Inr (reply_wire err (IP a))"
proof -
  let ?hd = "zeros[0 := 5, Suc 0 := reply_code err, 2 := 0, 3 := (4 :: u8)]"
  from written_segments [OF written_header, of "segments h"] obtain resp where
    s: "store_segments 4 (segments h) ?hd = Inr (resp, 20)" and
    w: "written resp 20 ([5, reply_code err, 0, 4] @ concat (map (\<lambda>s. [hi8 s, lo8 s]) (segments h)))"
    by auto
  from written_port [OF w] s show ?thesis
    by (simp add: assms build_simps)
qed

lemma build_response_domain:
  assumes "length d \<le> 255"
  shows "build_response err (DomainName d p) =
    (if length d \<le> 254 then Inr (reply_wire err (DomainName d p)) else Inl Panic)"
proof -
  let ?len = "of_nat (length d) :: u8"
  let ?hd = "zeros[0 := 5, Suc 0 := reply_code err, 2 := 0, 3 := 3, 4 := ?len]"
  have "written ?hd (Suc 4) ([5, reply_code err, 0, 3] @ [?len])"
    by (rule written_store [OF written_header]) simp
  then have hd: "written ?hd 5 [5, reply_code err, 0, 3, ?len]" by simp
  let ?r = "overwrite 5 d ?hd"
  have c: "copy_from_slice 5 (5 + length d) d ?hd = (Inr ?r :: (error, u8 list) res)"
    and w: "written ?r (5 + length d) ([5, reply_code err, 0, 3, ?len] @ d)"
    using written_copy [OF hd, of d] assms by simp_all
  have len: "?hd ! 4 = ?len" "unat ?len = length d"
    using assms by (simp_all add: zeros_def)
  show ?thesis
  proof (cases "length d \<le> 254")
    case True
    with written_port [OF w, of "hi8 p" "lo8 p"] c len show ?thesis
      by (simp add: build_simps)
  next
    case False
    with assms have "length d = 255" by simp
    with c w len show ?thesis
      by (simp add: build_simps store_def written_def)
  qed
qed

lemma build_response_long:
  assumes "255 < length d"
  shows "build_response err (DomainName d p) = Inl Panic"
proof -
  have "unat (of_nat (length d) :: u8) \<noteq> length d"
    using unat_u8_le [of "of_nat (length d)"] assms by linarith
  then show ?thesis
    by (simp add: build_simps copy_from_slice_def)
qed

lemma build_response_eq:
  "build_response err addr =
     (if fits_reply addr then Inr (reply_wire err addr) else Inl Panic)"
proof (cases addr)
  case (IP a)
  then show ?thesis
    by (cases "sa_ip a") (simp_all add: build_response_v4 build_response_v6)
next
  case (DomainName d p)
  then show ?thesis
    by (cases "length d \<le> 255") (simp_all add: build_response_domain build_response_long)
qed

lemma send_final_response_eq:
  "send_final_response T err addr =
     (if fits_reply addr then write_all T (reply_wire err addr) else panic)"
  by (simp add: send_final_response_def build_response_eq bindE_def fun_eq_iff
      split: prod.splits sum.splits)

lemma fits_default [simp]: "fits_reply default_req_addr"
  by (simp add: default_req_addr_def)

section \<open>Properties\<close>

text \<open>
  C10. The reply builder refines the wire format: for every reply code and every address it
  produces exactly the bytes RFC 1928 prescribes, and it panics for exactly the domain names
  of more than 254 bytes (one byte of the 261-byte buffer is missing for a name of 255).
\<close>

theorem build_response_refines:
  "build_response err addr =
     (if fits_reply addr then Inr (reply_wire err addr) else Inl Panic)"
  by (rule build_response_eq)

end
