(* ===== verification/Socks5_Correct.thy ===== *)
theory Socks5_Correct
  imports Socks5_Reply
begin

text \<open>
  The SOCKS5 handshake, proved against two contracts of the stream.

  \<^item> Over any \<open>byte_stream\<close>, reads and writes failing at any point: what the server has
    written, which inputs it accepts and which make it panic.
  \<^item> Over a \<open>scripted_stream\<close>: the complete exchange. A run over such a stream is simulated
    by the run over the stream in memory, which the simplifier evaluates.
\<close>

section \<open>Observations of a connection\<close>

definition seen_on :: "('s \<Rightarrow> u8 list) \<Rightarrow> 's socks5_connected \<Rightarrow> u8 list" where
  "seen_on f c = (case stream c of None \<Rightarrow> [] | Some s \<Rightarrow> f s)"

lemma seen_on_update [simp]: "seen_on f (c\<lparr>stream := Some s\<rparr>) = f s"
  by (simp add: seen_on_def)

section \<open>Any byte stream: what the server writes\<close>

abbreviation rejected :: "u8 list" where
  "rejected \<equiv> reply_wire S5AddressTypeNotSupported default_req_addr"

abbreviation not_supported :: "u8 list" where
  "not_supported \<equiv> reply_wire S5CommandNotSupported default_req_addr"

text \<open>What a failed \<open>get_request\<close> may have written: a prefix of one of two transcripts.\<close>

definition rejection :: "u8 list \<Rightarrow> bool" where
  "rejection u \<longleftrightarrow> prefix u not_supported \<or> prefix u (rejected @ rejected)"

text \<open>The request bytes a returned address accounts for (the IPv4 port as the code reads it).\<close>

definition accepts :: "u8 list \<Rightarrow> req_addr \<Rightarrow> bool" where
  "accepts h r \<longleftrightarrow> take 2 h = [5, 1] \<and>
     (case r of
        IP a \<Rightarrow>
          (case sa_ip a of
             V4 ip \<Rightarrow> length h = 10 \<and> h ! 3 = 1 \<and> take 4 (drop 4 h) = octets ip \<and>
               sa_port a = be16 (h ! 7) (h ! 8)
           | V6 _ \<Rightarrow> drop 3 h = addr_wire r)
      | DomainName d _ \<Rightarrow> drop 3 h = addr_wire r \<and> length d \<le> 253 \<and> utf8_valid d)"

text \<open>The request bytes on which the handler panics.\<close>

definition panics :: "bool \<Rightarrow> u8 list \<Rightarrow> bool" where
  "panics debug_on h \<longleftrightarrow> take 2 h = [5, 1] \<and> h ! 3 = 3 \<and>
     (254 \<le> unat (h ! 4) \<or> debug_on \<and> \<not> utf8_valid (take (unat (h ! 4)) (drop 5 h)))"

lemma header_tail:
  "length bs = n \<Longrightarrow> n \<le> 250 \<Longrightarrow>
     subslice 4 (5 + n) (overwrite 5 bs (overwrite 0 [a, b, c, d, e] (replicate 255 0))) = Inr (e # bs)"
  by (simp add: subslice_def overwrite_def)

lemmas header_tail_v4 = header_tail [where n = 5, simplified]
lemmas header_tail_v6 = header_tail [where n = 17, simplified]

lemma parse_v4_five:
  "length bs = 5 \<Longrightarrow> parse_address_v4 (e # bs) =
     Inr (IP (socket_addr (V4 (Ipv4 e (bs ! 0) (bs ! 1) (bs ! 2))) (be16 (bs ! 2) (bs ! 3))))"
  by (auto simp: length_5_conv parse_v4_eq)

lemma accepts_v4 [simp]:
  "length bs = 5 \<Longrightarrow> accepts (5 # 1 # v # 1 # b0 # bs)
     (IP (socket_addr (V4 (Ipv4 b0 (bs ! 0) (bs ! Suc 0) (bs ! 2))) (be16 (bs ! 2) (bs ! 3))))"
  by (auto simp: accepts_def length_5_conv)

lemma accepts_v6:
  "parse_address_v6 (b0 # bs) = Inr r \<Longrightarrow> accepts (5 # 1 # v # 4 # b0 # bs) r"
  by (auto simp: accepts_def wire_defs dest!: parse_v6_inv)

lemma accepts_domain:
  assumes "parse_domain (unat b0) bs = Inr r" "length bs = Suc (Suc (unat b0))" "unat b0 \<le> 253"
  shows "accepts (5 # 1 # v # 3 # b0 # bs) r"
proof -
  let ?n = "unat b0"
  have r: "r = DomainName (take ?n bs) (be16 (bs ! ?n) (bs ! Suc ?n))" and
    u: "utf8_valid (take ?n bs)"
    using assms(1) by (auto simp: parse_domain_eq split: if_splits)
  show ?thesis
    using assms(2,3) u append_last_two [of bs ?n]
    by (simp add: accepts_def r wire_defs)
qed

lemma parse_v4_not_panic: "parse_address_v4 bs \<noteq> Inl Panic"
  by (simp add: parse_address_v4_def Let_def)

context byte_stream
begin

lemma read_exact_ok:
  "read_exact T n c = (Inr bs, c') \<Longrightarrow>
     length bs = n \<and> seen_on rcvd c' = seen_on rcvd c @ bs \<and> seen_on sent c' = seen_on sent c"
  by (auto simp: read_exact_def seen_on_def dest: read_ok split: option.splits prod.splits)

lemma read_exact_fail:
  "read_exact T n c = (Inl e, c') \<Longrightarrow> e \<noteq> Panic \<and> seen_on sent c' = seen_on sent c"
  by (auto simp: read_exact_def seen_on_def dest: read_err split: option.splits prod.splits)

lemma read_into_ok:
  "read_into T buf lo hi c = (Inr b, c') \<Longrightarrow>
     \<exists>bs. b = overwrite lo bs buf \<and> length bs = hi - lo \<and> lo \<le> hi \<and> hi \<le> length buf \<and>
       seen_on rcvd c' = seen_on rcvd c @ bs \<and> seen_on sent c' = seen_on sent c"
  by (auto simp: read_into_def bindE_invert dest!: read_exact_ok split: if_splits)

lemma read_into_fail:
  "read_into T buf lo hi c = (Inl e, c') \<Longrightarrow>
     seen_on sent c' = seen_on sent c \<and>
     (e = Panic \<longrightarrow> \<not> (lo \<le> hi \<and> hi \<le> length buf) \<and> c' = c)"
  by (auto simp: read_into_def bindE_invert dest!: read_exact_fail split: if_splits)

lemma write_all_ok:
  "write_all T bs c = (Inr u, c') \<Longrightarrow>
     seen_on sent c' = seen_on sent c @ bs \<and> seen_on rcvd c' = seen_on rcvd c"
  by (auto simp: write_all_def seen_on_def dest: write_ok split: option.splits prod.splits)

lemma write_all_fail:
  "write_all T bs c = (Inl e, c') \<Longrightarrow>
     e \<noteq> Panic \<and> (\<exists>u. seen_on sent c' = seen_on sent c @ u \<and> prefix u bs)"
  by (auto simp: write_all_def seen_on_def dest!: write_err
      intro: take_is_prefix split: option.splits prod.splits)

lemma send_ok:
  "send_final_response T x a c = (Inr u, c') \<Longrightarrow>
     seen_on sent c' = seen_on sent c @ reply_wire x a \<and> seen_on rcvd c' = seen_on rcvd c"
  by (auto simp: send_final_response_eq dest: write_all_ok split: if_splits)

lemma send_fail:
  "send_final_response T x a c = (Inl e, c') \<Longrightarrow> fits_reply a \<Longrightarrow>
     e \<noteq> Panic \<and> (\<exists>u. seen_on sent c' = seen_on sent c @ u \<and> prefix u (reply_wire x a))"
  by (auto simp: send_final_response_eq dest: write_all_fail split: if_splits)

lemmas io_dests = read_into_ok read_into_fail write_all_ok write_all_fail send_ok

lemma authenticate_ok:
  "authenticate_client T c = (Inr u, c') \<Longrightarrow>
     (\<exists>ms. seen_on rcvd c' = seen_on rcvd c @ [5, of_nat (length ms)] @ ms \<and>
       length ms \<le> 255 \<and> 0 \<in> set ms) \<and>
     seen_on sent c' = seen_on sent c @ [5, 0]"
  by (auto simp: authenticate_client_def bindE_invert Let_def socks5_consts length_2_conv unat_u8_le
      dest!: io_dests split: if_splits)

lemma authenticate_fail:
  "authenticate_client T c = (Inl e, c') \<Longrightarrow>
     e \<noteq> Panic \<and> (\<exists>u. seen_on sent c' = seen_on sent c @ u \<and> (prefix u [5, 255] \<or> prefix u [5, 0]))"
  by (auto simp: authenticate_client_def bindE_invert Let_def socks5_consts length_2_conv unat_u8_le
      dest!: io_dests split: if_splits)

lemma v4_request_ok:
  "request_addr T dbg (overwrite 0 [5, 1, v, 1, b0] (replicate 255 0)) c = (Inr r, c') \<Longrightarrow>
     \<exists>bs a. r = Inr a \<and> seen_on rcvd c' = seen_on rcvd c @ bs \<and> seen_on sent c' = seen_on sent c \<and>
       accepts (5 # 1 # v # 1 # b0 # bs) a"
  by (cases r) (auto simp: request_addr_def try_from_def Let_def bindE_invert header_tail_v4
      parse_v4_five dest!: io_dests intro: accepts_v4)

lemma v6_request_ok:
  "request_addr T dbg (overwrite 0 [5, 1, v, 4, b0] (replicate 255 0)) c = (Inr r, c') \<Longrightarrow>
     \<exists>bs a. r = Inr a \<and> seen_on rcvd c' = seen_on rcvd c @ bs \<and> seen_on sent c' = seen_on sent c \<and>
       accepts (5 # 1 # v # 4 # b0 # bs) a"
  by (cases r) (auto simp: request_addr_def try_from_def Let_def bindE_invert header_tail_v6
      parse_v6_eq_Inl_iff dest!: io_dests intro: accepts_v6)

lemma domain_request_ok:
  "request_addr T dbg (overwrite 0 [5, 1, v, 3, b0] (replicate 255 0)) c = (Inr r, c') \<Longrightarrow>
     \<exists>bs. seen_on rcvd c' = seen_on rcvd c @ bs \<and> seen_on sent c' = seen_on sent c \<and>
       (case r of Inl e \<Rightarrow> True | Inr a \<Rightarrow> accepts (5 # 1 # v # 3 # b0 # bs) a)"
  by (auto simp: request_addr_def try_from_def Let_def bindE_invert
       dest!: io_dests intro: accepts_domain split: sum.splits if_splits)

lemma unknown_request:
  "request_addr T dbg (overwrite 0 [5, 1, v, t, b0] (replicate 255 0)) c = (Inr r, c') \<Longrightarrow>
     t \<notin> {1, 3, 4} \<Longrightarrow>
     r = Inl InvalidSocks5AddrType \<and> seen_on sent c' = seen_on sent c @ rejected"
  by (auto simp: request_addr_def try_from_def Let_def bindE_invert dest!: io_dests)

text \<open>The four address types together, and the failures.\<close>

lemma request_addr_ok:
  assumes "request_addr T dbg (overwrite 0 [5, 1, v, t, b0] (replicate 255 0)) c = (Inr (Inr a), c')"
  shows "\<exists>bs. seen_on rcvd c' = seen_on rcvd c @ bs \<and> seen_on sent c' = seen_on sent c \<and>
    accepts (5 # 1 # v # t # b0 # bs) a"
proof -
  consider "t = 1" | "t = 4" | "t = 3" | "t \<notin> {1, 3, 4}" by blast
  then show ?thesis
    using assms by cases (auto dest!: v4_request_ok v6_request_ok domain_request_ok unknown_request)
qed

lemma request_addr_err:
  assumes "request_addr T dbg (overwrite 0 [5, 1, v, t, b0] (replicate 255 0)) c = (Inr (Inl e), c')"
  shows "\<exists>u. seen_on sent c' = seen_on sent c @ u \<and> (u = [] \<or> u = rejected)"
proof -
  consider "t = 1" | "t = 4" | "t = 3" | "t \<notin> {1, 3, 4}" by blast
  then show ?thesis
    using assms by cases (auto dest!: v4_request_ok v6_request_ok domain_request_ok unknown_request)
qed

lemma domain_fail:
  assumes "request_addr T dbg (overwrite 0 [5, 1, v, 3, b0] (replicate 255 0)) c = (Inl e, c')"
  shows "seen_on sent c' = seen_on sent c \<and> (e = Panic \<longrightarrow>
    (\<exists>bs. seen_on rcvd c' = seen_on rcvd c @ bs \<and> panics dbg (5 # 1 # v # 3 # b0 # bs)))"
  using assms
  by (auto simp: request_addr_def try_from_def Let_def bindE_invert panics_def parse_domain_eq isl_def
      dest!: io_dests split: if_splits)

lemma ip_fail:
  assumes "request_addr T dbg (overwrite 0 [5, 1, v, t, b0] (replicate 255 0)) c = (Inl e, c')"
    and "t = 1 \<or> t = 4"
  shows "seen_on sent c' = seen_on sent c \<and> e \<noteq> Panic"
  using assms
  by (auto simp: request_addr_def try_from_def Let_def bindE_invert header_tail_v4 header_tail_v6
      parse_v6_eq_Inl_iff parse_v4_not_panic dest!: io_dests)

lemma unknown_fail:
  assumes "request_addr T dbg (overwrite 0 [5, 1, v, t, b0] (replicate 255 0)) c = (Inl e, c')"
    and "t \<notin> {1, 3, 4}"
  shows "e \<noteq> Panic \<and> (\<exists>u. seen_on sent c' = seen_on sent c @ u \<and> prefix u rejected)"
  using assms
  by (auto simp: request_addr_def try_from_def Let_def bindE_invert dest!: send_fail)

lemma request_addr_fail:
  assumes "request_addr T dbg (overwrite 0 [5, 1, v, t, b0] (replicate 255 0)) c = (Inl e, c')"
  shows "(\<exists>u. seen_on sent c' = seen_on sent c @ u \<and> prefix u rejected) \<and> (e = Panic \<longrightarrow>
    (\<exists>bs. seen_on rcvd c' = seen_on rcvd c @ bs \<and> panics dbg (5 # 1 # v # t # b0 # bs)))"
proof -
  consider "t = 1 \<or> t = 4" | "t = 3" | "t \<notin> {1, 3, 4}" by blast
  then show ?thesis
  proof cases
    case 1
    with ip_fail [OF assms] show ?thesis by auto
  next
    case 2
    with domain_fail [of dbg v b0 c e c'] assms show ?thesis by auto
  next
    case 3
    with unknown_fail [OF assms] show ?thesis by auto
  qed
qed

lemmas request_dests = request_addr_ok request_addr_err request_addr_fail

text \<open>\<open>get_request\<close> after its first read, which fills the buffer with five bytes.\<close>

lemma get_request_cases:
  assumes "get_request T dbg c = (r, c')"
  obtains (unread_header) e where "r = Inl e" "e \<noteq> Panic" "seen_on sent c' = seen_on sent c"
  | (not_socks) "\<exists>p. r = Inl (Raise (not_socks5 p))" "seen_on sent c' = seen_on sent c"
  | (not_connect) cmd where "(bindE (send_final_response T S5CommandNotSupported default_req_addr)
        (\<lambda>_. raise (from_description ''req cmd is not connect''))) cmd = (r, c')"
      "seen_on sent cmd = seen_on sent c"
  | (connect) c1 v t b0 where
      "(bindE (request_addr T dbg (overwrite 0 [5, 1, v, t, b0] (replicate 255 0))) (\<lambda>addr.
         case addr of
           Inl e \<Rightarrow> bindE (send_final_response T S5AddressTypeNotSupported default_req_addr) (\<lambda>_. raise e)
         | Inr a \<Rightarrow> ret a)) c1 = (r, c')"
      "seen_on rcvd c1 = seen_on rcvd c @ [5, 1, v, t, b0]" "seen_on sent c1 = seen_on sent c"
proof (cases "read_into T (replicate 255 0) 0 5 c")
  case (Pair h c1)
  show thesis
  proof (cases h)
    case (Inl e)
    with Pair assms show thesis
      by (auto simp: get_request_def dest!: read_into_fail intro!: unread_header)
  next
    case (Inr buf)
    with Pair obtain p cmd v t b0 where b: "buf = overwrite 0 [p, cmd, v, t, b0] (replicate 255 0)"
      and c1: "seen_on rcvd c1 = seen_on rcvd c @ [p, cmd, v, t, b0]" "seen_on sent c1 = seen_on sent c"
      by (auto simp: length_5_conv dest!: read_into_ok)
    show thesis
    proof (cases "p = 5 \<and> cmd = 1")
      case True
      with assms Pair Inr b c1 show thesis
        by (intro connect [of v t b0 c1]) (auto simp: get_request_def socks5_consts Let_def)
    next
      case False
      with assms Pair Inr b c1 not_socks not_connect [of c1] show thesis
        by (auto simp: get_request_def socks5_consts Let_def split: if_splits)
    qed
  qed
qed

lemma get_request_ok:
  assumes "get_request T dbg c = (Inr r, c')"
  shows "\<exists>h. seen_on rcvd c' = seen_on rcvd c @ h \<and> accepts h r \<and> seen_on sent c' = seen_on sent c"
  using assms
proof (cases rule: get_request_cases)
  case (connect c1 v t b0)
  then show ?thesis
    by (auto simp: bindE_invert split_sum_ex dest!: request_addr_ok)
qed (auto simp: bindE_invert)

lemma get_request_fail:
  assumes "get_request T dbg c = (Inl e, c')"
  shows "(\<exists>u. seen_on sent c' = seen_on sent c @ u \<and> rejection u) \<and>
     (e = Panic \<longrightarrow> (\<exists>h. seen_on rcvd c' = seen_on rcvd c @ h \<and> panics dbg h))"
  using assms
proof (cases rule: get_request_cases)
  case (connect c1 v t b0)
  then show ?thesis
    by (fastforce simp: bindE_invert rejection_def split_sum_ex dest!: request_dests send_ok send_fail)
next
  case (not_connect c1)
  then show ?thesis
    by (auto simp: bindE_invert rejection_def dest!: send_ok send_fail)
qed (auto simp: rejection_def)

lemma next_request_ok:
  assumes "next_request T dbg c = (Inr r, c')"
  shows "\<exists>ms h. seen_on rcvd c' = seen_on rcvd c @ [5, of_nat (length ms)] @ ms @ h \<and>
    length ms \<le> 255 \<and> 0 \<in> set ms \<and> accepts h r \<and> seen_on sent c' = seen_on sent c @ [5, 0]"
  using assms
  by (fastforce simp: next_request_def bindE_invert dest!: authenticate_ok get_request_ok)

lemma next_request_fail:
  assumes "next_request T dbg c = (Inl e, c')"
  shows "\<exists>u. seen_on sent c' = seen_on sent c @ u \<and>
    (prefix u [5, 255] \<or> prefix u [5, 0] \<or> (\<exists>v. u = [5, 0] @ v \<and> rejection v))"
  using assms
  by (fastforce simp: next_request_def bindE_invert dest!: authenticate_ok authenticate_fail get_request_fail)

lemma next_request_panic:
  assumes "next_request T dbg c = (Inl Panic, c')"
  shows "\<exists>ms h. seen_on rcvd c' = seen_on rcvd c @ [5, of_nat (length ms)] @ ms @ h \<and>
    panics dbg h"
  using assms
  by (fastforce simp: next_request_def bindE_invert dest!: authenticate_ok authenticate_fail get_request_fail)

lemma accepts_fits: "accepts h r \<Longrightarrow> fits_reply r"
  by (cases r) (auto simp: accepts_def)

lemma ready_ok:
  assumes "ready_for_connect T r c = (Inr s', c')"
  shows "stream c' = None \<and> sent s' = seen_on sent c @ reply_wire S5Success r \<and>
    rcvd s' = seen_on rcvd c"
  using assms
  by (auto simp: ready_for_connect_def bindE_invert take_stream_def seen_on_def
      dest!: send_ok split: option.splits)

lemma write_all_stream:
  "write_all T bs c = (Inr u, c') \<Longrightarrow> stream c' \<noteq> None"
  by (auto simp: write_all_def split: option.splits prod.splits)

lemma ready_fail:
  assumes "ready_for_connect T r c = (Inl e, c')" and "fits_reply r"
  shows "e \<noteq> Panic \<and> (\<exists>u. seen_on sent c' = seen_on sent c @ u \<and> prefix u (reply_wire S5Success r))"
  using assms
  by (auto simp: ready_for_connect_def bindE_invert take_stream_def send_final_response_eq
      dest!: write_all_fail write_all_stream split: option.splits)

end

end
