(* ===== verification/Socks5_Exchange.thy ===== *)
theory Socks5_Exchange
  imports Socks5_Correct
begin

text \<open>
  The complete exchange over a peer that behaves: a run of the handshake over any scripted
  stream returns what the run over the stream in memory returns, unless that one ends with an
  I/O error, and leaves the stream with the same bytes read, unread and written. The runs in
  memory are evaluated, for every method list, every kind of address and any bytes that follow.
\<close>

section \<open>Simulation\<close>

definition like_mem :: "('s \<Rightarrow> u8 list) \<Rightarrow> ('s \<Rightarrow> u8 list) \<Rightarrow> ('s \<Rightarrow> u8 list) \<Rightarrow>
    's socks5_connected \<Rightarrow> mem_stream socks5_connected \<Rightarrow> bool" where
  "like_mem rcvd sent unread c d \<longleftrightarrow>
     (case stream c of
        None \<Rightarrow> stream d = None
      | Some s \<Rightarrow> stream d = Some \<lparr>ms_in = unread s, ms_read = rcvd s, ms_out = sent s\<rparr>)"

definition simulates ::
  "('c \<Rightarrow> 'd \<Rightarrow> bool) \<Rightarrow> ('c, error, 'a) io \<Rightarrow> ('d, error, 'a) io \<Rightarrow> bool" where
  "simulates R m m' \<longleftrightarrow> (\<forall>c d r d'. R c d \<longrightarrow> m' d = (r, d') \<longrightarrow>
     (\<exists>e. r = Inl (Raise (Io e))) \<or> (\<exists>c'. m c = (r, c') \<and> R c' d'))"

lemma simulatesI:
  assumes "\<And>c d r d'. R c d \<Longrightarrow> m' d = (r, d') \<Longrightarrow> (\<And>e. r \<noteq> Inl (Raise (Io e))) \<Longrightarrow>
    \<exists>c'. m c = (r, c') \<and> R c' d'"
  shows "simulates R m m'"
  using assms unfolding simulates_def by blast

lemma simulatesD:
  "simulates R m m' \<Longrightarrow> R c d \<Longrightarrow> m' d = (r, d') \<Longrightarrow> (\<And>e. r \<noteq> Inl (Raise (Io e))) \<Longrightarrow>
    \<exists>c'. m c = (r, c') \<and> R c' d'"
  unfolding simulates_def by blast

named_theorems sim_intros

lemma sim_ret [sim_intros]: "simulates R (ret x) (ret x)"
  by (rule simulatesI) auto

lemma sim_raise [sim_intros]: "simulates R (raise e) (raise e)"
  by (rule simulatesI) auto

lemma sim_panic [sim_intros]: "simulates R panic panic"
  by (rule simulatesI) auto

lemma sim_lift_res [sim_intros]: "simulates R (lift_res r) (lift_res r)"
  by (rule simulatesI) auto

lemma sim_attempt_lift [sim_intros]: "simulates R (attempt (lift_res r)) (attempt (lift_res r))"
  by (rule simulatesI) (auto simp: attempt_def split: sum.splits stop.splits)

lemma sim_if [sim_intros]:
  "simulates R m m' \<Longrightarrow> simulates R n n' \<Longrightarrow> simulates R (if b then m else n) (if b then m' else n')"
  by simp

lemma sim_sum_case [sim_intros]:
  "(\<And>x. simulates R (f x) (f' x)) \<Longrightarrow> (\<And>y. simulates R (g y) (g' y)) \<Longrightarrow>
    simulates R (case z of Inl x \<Rightarrow> f x | Inr y \<Rightarrow> g y) (case z of Inl x \<Rightarrow> f' x | Inr y \<Rightarrow> g' y)"
  by (simp split: sum.split)

lemma sim_type_case [sim_intros]:
  "simulates R a a' \<Longrightarrow> simulates R b b' \<Longrightarrow> simulates R c c' \<Longrightarrow>
    simulates R (case t of IPV4 \<Rightarrow> a | IPV6 \<Rightarrow> b | DOMAIN \<Rightarrow> c)
      (case t of IPV4 \<Rightarrow> a' | IPV6 \<Rightarrow> b' | DOMAIN \<Rightarrow> c')"
  by (simp split: socks5_addr_type.split)

lemma sim_bindE [sim_intros]:
  assumes m: "simulates R m m'" and f: "\<And>x. simulates R (f x) (f' x)"
  shows "simulates R (bindE m f) (bindE m' f')"
proof (rule simulatesI)
  fix c d r d'
  assume R: "R c d" and run: "bindE m' f' d = (r, d')" and ok: "\<And>e. r \<noteq> Inl (Raise (Io e))"
  show "\<exists>c'. bindE m f c = (r, c') \<and> R c' d'"
  proof (cases "m' d")
    case (Pair r1 d1)
    show ?thesis
    proof (cases r1)
      case (Inl e)
      with Pair run have "r = Inl e" "d' = d1" by auto
      with simulatesD [OF m R Pair] Inl ok show ?thesis by force
    next
      case (Inr x)
      with simulatesD [OF m R Pair] obtain c1 where "m c = (Inr x, c1)" "R c1 d1" by auto
      moreover from this Pair Inr run have "\<exists>c'. f x c1 = (r, c') \<and> R c' d'"
        by (intro simulatesD [OF f _ _ ok]) auto
      ultimately show ?thesis by auto
    qed
  qed
qed

context scripted_stream
begin

abbreviation like :: "'s socks5_connected \<Rightarrow> mem_stream socks5_connected \<Rightarrow> bool" where
  "like \<equiv> like_mem rcvd sent unread"

lemma sim_read_exact: "simulates like (read_exact T n) (read_exact mem_tcp n)"
proof (rule simulatesI)
  fix c d r d'
  assume R: "like c d" and run: "read_exact mem_tcp n d = (r, d')"
    and ok: "\<And>e. r \<noteq> Inl (Raise (Io e))"
  show "\<exists>c'. read_exact T n c = (r, c') \<and> like c' d'"
  proof (cases "stream c")
    case None
    with R run show ?thesis by (auto simp: like_mem_def read_exact_def)
  next
    case (Some s)
    with R run ok have "n \<le> length (unread s)"
      by (auto simp: like_mem_def read_exact_def mem_read_def split: if_splits)
    from read_available [OF this] obtain s'
      where s': "tcp_read_exact T n s = (Inr (take n (unread s)), s')" "unread s' = drop n (unread s)"
      by blast
    from read_ok [OF s'(1)] s' Some R run \<open>n \<le> length (unread s)\<close> show ?thesis
      by (auto simp: like_mem_def read_exact_def mem_read_def)
  qed
qed

lemma sim_write_all: "simulates like (write_all T bs) (write_all mem_tcp bs)"
proof (rule simulatesI)
  fix c d r d'
  assume R: "like c d" and run: "write_all mem_tcp bs d = (r, d')"
  show "\<exists>c'. write_all T bs c = (r, c') \<and> like c' d'"
  proof (cases "stream c")
    case None
    with R run show ?thesis by (auto simp: like_mem_def write_all_def)
  next
    case (Some s)
    from write_taken [of bs s] obtain s'
      where s': "tcp_write_all T bs s = (Inr (), s')" "unread s' = unread s" by blast
    from write_ok [OF s'(1)] s' Some R run show ?thesis
      by (auto simp: like_mem_def write_all_def mem_write_def)
  qed
qed

lemma sim_read_into: "simulates like (read_into T buf lo hi) (read_into mem_tcp buf lo hi)"
  unfolding read_into_def by (intro sim_intros sim_read_exact)

lemma sim_send: "simulates like (send_final_response T e a) (send_final_response mem_tcp e a)"
  unfolding send_final_response_def by (intro sim_intros sim_write_all)

lemmas sim_ops = sim_read_into sim_write_all sim_send

lemma sim_authenticate: "simulates like (authenticate_client T) (authenticate_client mem_tcp)"
  unfolding authenticate_client_def Let_def by (intro sim_intros sim_ops)

lemma sim_get_request: "simulates like (get_request T dbg) (get_request mem_tcp dbg)"
  unfolding get_request_def request_addr_def Let_def by (intro sim_intros sim_ops)

lemma sim_next_request: "simulates like (next_request T dbg) (next_request mem_tcp dbg)"
  unfolding next_request_def by (intro sim_intros sim_authenticate sim_get_request)

end

section \<open>Runs in memory\<close>

definition mem_conn ::
  "mem_stream socks5_connected \<Rightarrow> u8 list \<Rightarrow> u8 list \<Rightarrow> u8 list \<Rightarrow> mem_stream socks5_connected" where
  "mem_conn d i r w = d\<lparr>stream := Some \<lparr>ms_in = i, ms_read = r, ms_out = w\<rparr>\<rparr>"

lemma mem_read_into:
  assumes "lo + length bs = hi" and "hi \<le> length buf"
  shows "read_into mem_tcp buf lo hi (mem_conn d (bs @ i) r w) =
    (Inr (overwrite lo bs buf), mem_conn d i (r @ bs) w)"
  using assms by (auto simp: read_into_def bindE_apply read_exact_def mem_read_def mem_conn_def)

lemma mem_write [simp]:
  "write_all mem_tcp bs (mem_conn d i r w) = (Inr (), mem_conn d i r (w @ bs))"
  by (simp add: write_all_def mem_write_def mem_conn_def)

lemma mem_send [simp]:
  "fits_reply a \<Longrightarrow> send_final_response mem_tcp e a (mem_conn d i r w) =
     (Inr (), mem_conn d i r (w @ reply_wire e a))"
  by (simp add: send_final_response_eq)

lemma mem_ready:
  assumes "fits_reply a"
  shows "ready_for_connect mem_tcp a (mem_conn d i r w) =
    (Inr \<lparr>ms_in = i, ms_read = r, ms_out = w @ reply_wire S5Success a\<rparr>, d\<lparr>stream := None\<rparr>)"
  using assms by (simp add: ready_for_connect_def take_stream_def) (simp add: mem_conn_def)

definition greeting :: "u8 list \<Rightarrow> u8 list" where
  "greeting ms = [SOCKS5_PROTOCOL, of_nat (length ms)] @ ms"

definition request :: "req_addr \<Rightarrow> u8 list" where
  "request a = [SOCKS5_PROTOCOL, SOCKS5_CMD_CONNECT, 0] @ addr_wire a"

lemma mem_authenticate:
  assumes "length ms \<le> 255"
  shows "authenticate_client mem_tcp (mem_conn d (greeting ms @ i) r w) =
    (if SOCKS5_NO_AUTH \<in> set ms
     then (Inr (), mem_conn d i (r @ greeting ms) (w @ [SOCKS5_PROTOCOL, SOCKS5_NO_AUTH]))
     else (Inl (Raise (from_description ''No supported method given'')),
           mem_conn d i (r @ greeting ms) (w @ [SOCKS5_PROTOCOL, SOCKS5_NO_ACCEPTABLE_METHOD])))"
proof -
  let ?hd = "[SOCKS5_PROTOCOL, of_nat (length ms)]"
  have n: "unat (of_nat (length ms) :: u8) = length ms"
    using assms by simp
  have 1: "read_into mem_tcp (replicate 256 0) 0 2 (mem_conn d (greeting ms @ i) r w) =
      (Inr (overwrite 0 ?hd (replicate 256 0)), mem_conn d (ms @ i) (r @ ?hd) w)"
    using mem_read_into [of 0 ?hd 2 "replicate 256 0" d "ms @ i" r w] by (simp add: greeting_def)
  have 2: "read_into mem_tcp (overwrite 0 ?hd (replicate 256 0)) 0 (length ms)
        (mem_conn d (ms @ i) (r @ ?hd) w) =
      (Inr (overwrite 0 ms (overwrite 0 ?hd (replicate 256 0))), mem_conn d i (r @ greeting ms) w)"
    using mem_read_into [of 0 ms "length ms" "overwrite 0 ?hd (replicate 256 0)" d i "r @ ?hd" w] assms
    by (simp add: greeting_def)
  show ?thesis
    by (simp add: authenticate_client_def 1 2 n Let_def)
qed

text \<open>The address a request is answered with: an IPv4 request loses its port.\<close>

fun as_parsed :: "req_addr \<Rightarrow> req_addr" where
  "as_parsed (IP a) =
     (case sa_ip a of
        V4 h \<Rightarrow> IP (socket_addr (V4 h) (be16 (octets h ! 3) (hi8 (sa_port a))))
      | V6 _ \<Rightarrow> IP a)"
| "as_parsed (DomainName d p) = DomainName d p"

fun requestable :: "req_addr \<Rightarrow> bool" where
  "requestable (IP _) = True"
| "requestable (DomainName d _) = (length d \<le> 253 \<and> utf8_valid d)"

text \<open>
  What a returned address says of the bytes that were read: they are a CONNECT request for some
  address, which was returned as it is parsed.
\<close>

lemma accepts_request:
  assumes "accepts h r"
  shows "\<exists>v a. h = [5, 1, v] @ addr_wire a \<and> requestable a \<and> r = as_parsed a"
proof -
  have h: "h = [5, 1, h ! 2] @ drop 3 h" if "3 \<le> length h"
    using assms that by (auto simp: accepts_def numeral_eq_Suc Suc_le_length_iff)
  show ?thesis
  proof (cases r)
    case (DomainName d p)
    with assms have d: "drop 3 h = addr_wire r" "requestable r" "as_parsed r = r" by (simp_all add: accepts_def)
    then have "3 \<le> length h" by (intro leI notI) (simp add: addr_wire_def)
    with h d show ?thesis by (intro exI [of _ "h ! 2"] exI [of _ r]) simp
  next
    case (IP a)
    show ?thesis
    proof (cases "sa_ip a")
      case (V6 x)
      with IP assms have d: "drop 3 h = addr_wire r" "requestable r" "as_parsed r = r" by (simp_all add: accepts_def)
      then have "3 \<le> length h" by (intro leI notI) (simp add: addr_wire_def)
      with h d show ?thesis by (intro exI [of _ "h ! 2"] exI [of _ r]) simp
    next
      case (V4 x)
      with IP assms have w: "length h = 10" "h ! 3 = 1" "take 4 (drop 4 h) = octets x" "sa_port a = be16 (h ! 7) (h ! 8)"
        by (simp_all add: accepts_def)
      then obtain b0 b1 b2 b3 b4 b5 b6 b7 b8 b9 where h: "h = [b0, b1, b2, b3, b4, b5, b6, b7, b8, b9]"
        by (auto simp: eval_nat_numeral length_Suc_conv)
      from w(2,3) have x: "b3 = 1" "octets x = [b4, b5, b6, b7]" by (simp_all add: h)
      from assms have "b0 = 5" "b1 = 1" by (simp_all add: accepts_def h)
      then have "h = [5, 1, b2] @ addr_wire (IP (socket_addr (V4 x) (be16 b8 b9)))"
        by (simp add: h x wire_defs)
      moreover have "a = socket_addr (V4 x) (be16 b7 b8)"
        using socket_addr_eta [of a] w(4) V4 by (simp add: h)
      then have "r = as_parsed (IP (socket_addr (V4 x) (be16 b8 b9)))" by (simp add: IP x)
      ultimately show ?thesis by (intro exI conjI) (assumption | simp)+
    qed
  qed
qed

lemma mem_request_v4:
  assumes "sa_ip a = V4 h"
  shows "get_request mem_tcp dbg (mem_conn d (request (IP a) @ i) r w) =
    (Inr (as_parsed (IP a)), mem_conn d i (r @ request (IP a)) w)"
proof (cases h)
  case (Ipv4 x0 x1 x2 x3)
  let ?hd = "[5, 1, 0, 1, x0]"
  let ?tl = "[x1, x2, x3, hi8 (sa_port a), lo8 (sa_port a)]"
  have split: "request (IP a) = ?hd @ ?tl"
    using assms Ipv4 by (simp add: request_def wire_defs socks5_consts)
  have 1: "read_into mem_tcp (replicate 255 0) 0 5 (mem_conn d (request (IP a) @ i) r w) =
      (Inr (overwrite 0 ?hd (replicate 255 0)), mem_conn d (?tl @ i) (r @ ?hd) w)"
    using mem_read_into [of 0 ?hd 5 "replicate 255 0" d "?tl @ i" r w] by (simp add: split)
  have 2: "read_into mem_tcp (overwrite 0 ?hd (replicate 255 0)) 5 10 (mem_conn d (?tl @ i) (r @ ?hd) w) =
      (Inr (overwrite 5 ?tl (overwrite 0 ?hd (replicate 255 0))), mem_conn d i (r @ request (IP a)) w)"
    using mem_read_into [of 5 ?tl 10 "overwrite 0 ?hd (replicate 255 0)" d i "r @ ?hd" w]
    by (simp add: split)
  show ?thesis
    using assms Ipv4
    by (simp add: get_request_def request_addr_def try_from_def socks5_consts 1 2 [simplified]
        header_tail_v4 parse_v4_eq)
qed

lemma mem_request_v6:
  assumes "sa_ip a = V6 h"
  shows "get_request mem_tcp dbg (mem_conn d (request (IP a) @ i) r w) =
    (Inr (as_parsed (IP a)), mem_conn d i (r @ request (IP a)) w)"
proof -
  let ?wire = "concat (map (\<lambda>s. [hi8 s, lo8 s]) (segments h)) @ port_wire (sa_port a)"
  obtain x0 tl where wire: "?wire = x0 # tl" and len: "length tl = 17"
    by (cases h) (auto simp: port_wire_def)
  let ?hd = "[5, 1, 0, 4, x0]"
  have split: "request (IP a) = ?hd @ tl"
    using assms wire by (simp add: request_def addr_wire_def socks5_consts)
  have 1: "read_into mem_tcp (replicate 255 0) 0 5 (mem_conn d (request (IP a) @ i) r w) =
      (Inr (overwrite 0 ?hd (replicate 255 0)), mem_conn d (tl @ i) (r @ ?hd) w)"
    using mem_read_into [of 0 ?hd 5 "replicate 255 0" d "tl @ i" r w] by (simp add: split)
  have 2: "read_into mem_tcp (overwrite 0 ?hd (replicate 255 0)) 5 22 (mem_conn d (tl @ i) (r @ ?hd) w) =
      (Inr (overwrite 5 tl (overwrite 0 ?hd (replicate 255 0))), mem_conn d i (r @ request (IP a)) w)"
    using mem_read_into [of 5 tl 22 "overwrite 0 ?hd (replicate 255 0)" d i "r @ ?hd" w] len
    by (simp add: split)
  have p: "parse_address_v6 (x0 # tl) = Inr (IP a)"
    using parse_v6_wire [of h "sa_port a"] socket_addr_eta [of a] assms by (simp add: wire)
  show ?thesis
    using assms len
    by (simp add: get_request_def request_addr_def try_from_def socks5_consts 1 2 header_tail_v6 p)
qed

lemma mem_request_domain:
  assumes "length x \<le> 253" and "utf8_valid x"
  shows "get_request mem_tcp dbg (mem_conn d (request (DomainName x p) @ i) r w) =
    (Inr (DomainName x p), mem_conn d i (r @ request (DomainName x p)) w)"
proof -
  let ?hd = "[5, 1, 0, 3, of_nat (length x)]" and ?tl = "x @ [hi8 p, lo8 p]"
  have split: "request (DomainName x p) = ?hd @ ?tl"
    by (simp add: request_def wire_defs socks5_consts)
  have n: "unat (of_nat (length x) :: u8) = length x"
    using assms by simp
  have 1: "read_into mem_tcp (replicate 255 0) 0 5 (mem_conn d (request (DomainName x p) @ i) r w) =
      (Inr (overwrite 0 ?hd (replicate 255 0)), mem_conn d (?tl @ i) (r @ ?hd) w)"
    using mem_read_into [of 0 ?hd 5 "replicate 255 0" d "?tl @ i" r w] by (simp add: split)
  have 2: "read_into mem_tcp (overwrite 0 ?hd (replicate 255 0)) 0 (Suc (Suc (length x)))
        (mem_conn d (?tl @ i) (r @ ?hd) w) =
      (Inr (overwrite 0 ?tl (overwrite 0 ?hd (replicate 255 0))),
       mem_conn d i (r @ request (DomainName x p)) w)"
    using mem_read_into [of 0 ?tl "Suc (Suc (length x))" "overwrite 0 ?hd (replicate 255 0)" d i
        "r @ ?hd" w] assms
    by (simp add: split)
  show ?thesis
    using 1 2 assms(2) parse_domain_wire [of x "hi8 p" "lo8 p"]
    by (simp add: get_request_def request_addr_def try_from_def socks5_consts n Let_def)
qed

lemma mem_get_request:
  assumes "requestable a"
  shows "get_request mem_tcp dbg (mem_conn d (request a @ i) r w) =
    (Inr (as_parsed a), mem_conn d i (r @ request a) w)"
proof (cases a)
  case (IP sa)
  then show ?thesis
    by (cases "sa_ip sa") (simp_all only: mem_request_v4 mem_request_v6)
next
  case (DomainName x p)
  with assms mem_request_domain show ?thesis by simp
qed

text \<open>A connection over any scripted stream, as the connection in memory it is simulated by.\<close>

lemma like_mem_conn:
  assumes "stream c = Some s" and "seen_on unread c = i"
  shows "like_mem rcvd sent unread c (mem_conn d i (rcvd s) (sent s))"
  using assms by (simp add: like_mem_def mem_conn_def seen_on_def)

lemma like_mem_connD:
  "like_mem rcvd sent unread c (mem_conn d i r w) \<Longrightarrow>
    \<exists>s. stream c = Some s \<and> unread s = i \<and> rcvd s = r \<and> sent s = w"
  by (auto simp: like_mem_def mem_conn_def split: option.splits)

lemma run_from_memory:
  assumes "simulates (like_mem rcvd sent unread) m m'"
    and "stream c = Some s" and "unread s = i"
    and "m' (mem_conn d i (rcvd s) (sent s)) = (r, mem_conn d j x y)"
    and "\<And>e. r \<noteq> Inl (Raise (Io e))"
  shows "\<exists>c' s'. m c = (r, c') \<and> stream c' = Some s' \<and> unread s' = j \<and> sent s' = y"
proof -
  have "like_mem rcvd sent unread c (mem_conn d i (rcvd s) (sent s))"
    using assms(2,3) by (intro like_mem_conn) (simp_all add: seen_on_def)
  from simulatesD [OF assms(1) this assms(4,5)] show ?thesis
    by (auto dest!: like_mem_connD)
qed

lemma mem_next_request:
  assumes "length ms \<le> 255" and "SOCKS5_NO_AUTH \<in> set ms" and "requestable a"
  shows "next_request mem_tcp dbg (mem_conn d (greeting ms @ request a @ i) r w) =
    (Inr (as_parsed a), mem_conn d i (r @ greeting ms @ request a) (w @ [5, 0]))"
  using assms mem_get_request [of a dbg d i "r @ greeting ms" "w @ [5, 0]"]
  by (simp add: next_request_def mem_authenticate socks5_consts)

lemma scripted_next_request:
  assumes "scripted_stream T rcvd sent unread" and "stream c = Some s"
    and "unread s = greeting ms @ request a @ rest"
    and "length ms \<le> 255" and "SOCKS5_NO_AUTH \<in> set ms" and "requestable a"
  shows "\<exists>c' s'. next_request T debug_on c = (Inr (as_parsed a), c') \<and> stream c' = Some s' \<and>
    unread s' = rest \<and> sent s' = sent s @ [5, 0]"
  using run_from_memory [OF scripted_stream.sim_next_request [OF assms(1)] assms(2) refl]
    mem_next_request [OF assms(4-6)] assms(3)
  by fastforce

lemma fits_as_parsed: "requestable a \<Longrightarrow> fits_reply (as_parsed a)"
  by (cases a) (auto split: ip_addr.split)

text \<open>The header of a request the handler turns down.\<close>

lemma mem_header:
  "read_into mem_tcp (replicate 255 0) 0 5 (mem_conn d (p # cmd # v # t # b0 # i) r w) =
     (Inr (overwrite 0 [p, cmd, v, t, b0] (replicate 255 0)), mem_conn d i (r @ [p, cmd, v, t, b0]) w)"
  using mem_read_into [of 0 "[p, cmd, v, t, b0]" 5 "replicate 255 0" d i r w] by simp

lemma mem_unknown_type:
  assumes "t \<notin> {1, 3, 4}"
  shows "get_request mem_tcp dbg (mem_conn d (5 # 1 # v # t # b0 # i) r w) =
    (Inl (Raise InvalidSocks5AddrType),
     mem_conn d i (r @ [5, 1, v, t, b0]) (w @ rejected @ rejected))"
  using assms by (simp add: get_request_def request_addr_def try_from_def socks5_consts mem_header)

lemma mem_not_connect:
  assumes "cmd \<noteq> 1"
  shows "get_request mem_tcp dbg (mem_conn d (5 # cmd # v # t # b0 # i) r w) =
    (Inl (Raise (from_description ''req cmd is not connect'')),
     mem_conn d i (r @ [5, cmd, v, t, b0]) (w @ not_supported))"
  using assms by (simp add: get_request_def socks5_consts mem_header)

lemma mem_long_domain:
  assumes "254 \<le> unat b0"
  shows "get_request mem_tcp dbg (mem_conn d (5 # 1 # v # 3 # b0 # i) r w) =
    (Inl Panic, mem_conn d i (r @ [5, 1, v, 3, b0]) w)"
proof -
  have "read_into mem_tcp (overwrite 0 [5, 1, v, 3, b0] (replicate 255 0)) 0 (Suc (Suc (unat b0))) c =
      (Inl Panic, c)" for c
    using assms by (simp add: read_into_def)
  then show ?thesis
    by (simp add: get_request_def request_addr_def try_from_def socks5_consts mem_header Let_def)
qed

lemma mem_bad_utf8:
  assumes "length x = unat b0" and "unat b0 \<le> 253" and "\<not> utf8_valid x"
  shows "get_request mem_tcp dbg (mem_conn d (5 # 1 # v # 3 # b0 # x @ [hi, lo] @ i) r w) =
    (if dbg then (Inl Panic, mem_conn d i (r @ [5, 1, v, 3, b0] @ x @ [hi, lo]) w)
     else (Inl (Raise Utf8), mem_conn d i (r @ [5, 1, v, 3, b0] @ x @ [hi, lo]) (w @ rejected)))"
proof -
  let ?buf = "overwrite 0 [5, 1, v, 3, b0] (replicate 255 0)"
  have 1: "read_into mem_tcp ?buf 0 (Suc (Suc (unat b0)))
        (mem_conn d (x @ hi # lo # i) (r @ [5, 1, v, 3, b0]) w) =
      (Inr (overwrite 0 (x @ [hi, lo]) ?buf), mem_conn d i (r @ [5, 1, v, 3, b0] @ x @ [hi, lo]) w)"
    using mem_read_into [of 0 "x @ [hi, lo]" "Suc (Suc (unat b0))" ?buf d i "r @ [5, 1, v, 3, b0]" w]
      assms by simp
  show ?thesis
    using assms parse_domain_wire [of x hi lo]
    by (simp add: get_request_def request_addr_def try_from_def socks5_consts mem_header 1 Let_def)
qed

text \<open>The handshake of every well-formed client: names of up to 255 bytes can be encoded.\<close>

fun encodable :: "req_addr \<Rightarrow> bool" where
  "encodable (IP _) \<longleftrightarrow> True"
| "encodable (DomainName d _) \<longleftrightarrow> length d \<le> 255"

fun name_of :: "req_addr \<Rightarrow> u8 list" where
  "name_of (IP _) = []"
| "name_of (DomainName d _) = d"

lemma mem_not_requestable:
  assumes "encodable a" and "\<not> requestable a"
  shows "get_request mem_tcp dbg (mem_conn d (request a @ i) r w) =
    (if 254 \<le> length (name_of a) then
       (Inl Panic, mem_conn d (name_of a @ port_wire (port a) @ i) (r @ take 5 (request a)) w)
     else if dbg then (Inl Panic, mem_conn d i (r @ request a) w)
     else (Inl (Raise Utf8), mem_conn d i (r @ request a) (w @ rejected)))"
proof (cases a)
  case (DomainName x p)
  have n: "unat (of_nat (length x) :: u8) = length x" using assms(1) DomainName by simp
  have req: "request a = [5, 1, 0, 3, of_nat (length x)] @ x @ [hi8 p, lo8 p]"
    by (simp add: DomainName request_def wire_defs socks5_consts)
  show ?thesis
  proof (cases "254 \<le> length x")
    case True
    with mem_long_domain [of "of_nat (length x)" dbg d 0 "x @ [hi8 p, lo8 p] @ i" r w] n show ?thesis
      unfolding req by (simp add: DomainName port_wire_def)
  next
    case False
    with mem_bad_utf8 [of x "of_nat (length x)" dbg d 0 "hi8 p" "lo8 p" i r w] n assms(2) show ?thesis
      unfolding req by (simp add: DomainName)
  qed
qed (use assms in simp)

end
