(* ===== verification/Std_Ip.thy ===== *)
theory Std_Ip
  imports Std_Net
begin

text \<open>
  \<open>str::parse::<IpAddr>()\<close>, the text syntax of IP addresses that the configuration and the
  Rocks packets use. The reader of the standard library is a recursive descent over the
  bytes of the text: decimal octets of at most three digits with no leading zero, or up to
  eight groups of at most four hexadecimal digits with one \<open>::\<close> and a trailing embedded IPv4
  address. A reader that fails consumes nothing.
\<close>

type_synonym 'a reader = "u8 list \<Rightarrow> ('a \<times> u8 list) option"

definition digit_of :: "nat \<Rightarrow> u8 \<Rightarrow> nat option" where
  "digit_of radix c =
     (let n = unat c in
      if 48 \<le> n \<and> n \<le> 57 then Some (n - 48)
      else if radix = 16 \<and> 97 \<le> n \<and> n \<le> 102 then Some (n - 87)
      else if radix = 16 \<and> 65 \<le> n \<and> n \<le> 70 then Some (n - 55)
      else None)"

fun read_digits :: "nat \<Rightarrow> nat \<Rightarrow> nat \<Rightarrow> nat \<Rightarrow> nat \<Rightarrow> u8 list \<Rightarrow> (nat \<times> nat \<times> u8 list) option" where
  "read_digits radix max_digits bound acc count [] = Some (acc, count, [])"
| "read_digits radix max_digits bound acc count (c # cs) =
     (case digit_of radix c of
        None \<Rightarrow> Some (acc, count, c # cs)
      | Some d \<Rightarrow>
          if bound \<le> acc * radix + d then None
          else if max_digits < count + 1 then None
          else read_digits radix max_digits bound (acc * radix + d) (count + 1) cs)"

definition read_number :: "nat \<Rightarrow> nat \<Rightarrow> bool \<Rightarrow> nat \<Rightarrow> nat reader" where
  "read_number radix max_digits allow_zero_prefix bound p =
     (case read_digits radix max_digits bound 0 0 p of
        None \<Rightarrow> None
      | Some (n, count, p') \<Rightarrow>
          if count = 0 then None
          else if \<not> allow_zero_prefix \<and> hd p = 48 \<and> 1 < count then None
          else Some (n, p'))"

definition read_given :: "u8 \<Rightarrow> unit reader" where
  "read_given c p = (case p of x # p' \<Rightarrow> if x = c then Some ((), p') else None | [] \<Rightarrow> None)"

definition read_separator :: "u8 \<Rightarrow> nat \<Rightarrow> 'a reader \<Rightarrow> 'a reader" where
  "read_separator sep i inner p =
     (if 0 < i then (case read_given sep p of Some (_, p') \<Rightarrow> inner p' | None \<Rightarrow> None)
      else inner p)"

definition read_octet :: "nat \<Rightarrow> nat reader" where
  "read_octet i = read_separator 46 i (read_number 10 3 False 256)"

definition read_ipv4 :: "ipv4 reader" where
  "read_ipv4 p =
     (case read_octet 0 p of None \<Rightarrow> None | Some (a, p) \<Rightarrow>
     (case read_octet 1 p of None \<Rightarrow> None | Some (b, p) \<Rightarrow>
     (case read_octet 2 p of None \<Rightarrow> None | Some (c, p) \<Rightarrow>
     (case read_octet 3 p of None \<Rightarrow> None | Some (d, p) \<Rightarrow>
        Some (Ipv4 (of_nat a) (of_nat b) (of_nat c) (of_nat d), p)))))"

text \<open>The groups read, whether they end with an embedded IPv4 address, and the rest.\<close>

function read_groups :: "nat \<Rightarrow> nat \<Rightarrow> u8 list \<Rightarrow> u16 list \<times> bool \<times> u8 list" where
  "read_groups limit i p =
     (if limit \<le> i then ([], False, p)
      else
        case (if i < limit - 1 then read_separator 58 i read_ipv4 p else None) of
          Some (Ipv4 a b c d, p') \<Rightarrow> ([be16 a b, be16 c d], True, p')
        | None \<Rightarrow>
            (case read_separator 58 i (read_number 16 4 True 65536) p of
               None \<Rightarrow> ([], False, p)
             | Some (g, p') \<Rightarrow>
                 (case read_groups limit (i + 1) p' of
                    (gs, v4, p'') \<Rightarrow> (of_nat g # gs, v4, p''))))"
  by pat_completeness auto
termination
  by (relation "measure (\<lambda>(limit, i, p). limit - i)") auto

declare read_groups.simps [simp del]

definition ipv6_of :: "u16 list \<Rightarrow> ipv6" where
  "ipv6_of gs = Ipv6 (gs ! 0) (gs ! 1) (gs ! 2) (gs ! 3) (gs ! 4) (gs ! 5) (gs ! 6) (gs ! 7)"

definition read_ipv6 :: "ipv6 reader" where
  "read_ipv6 p =
     (case read_groups 8 0 p of (head, head_ipv4, p) \<Rightarrow>
      if length head = 8 then Some (ipv6_of head, p)
      else if head_ipv4 then None
      else
        (case read_given 58 p of None \<Rightarrow> None | Some (_, p) \<Rightarrow>
        (case read_given 58 p of None \<Rightarrow> None | Some (_, p) \<Rightarrow>
        (case read_groups (8 - (length head + 1)) 0 p of (tail, _, p) \<Rightarrow>
           Some (ipv6_of (head @ replicate (8 - length head - length tail) 0 @ tail), p)))))"

definition parse_ip :: "rstring \<Rightarrow> ip_addr option" where
  "parse_ip s =
     (case read_ipv4 s of
        Some (a, []) \<Rightarrow> Some (V4 a)
      | Some _ \<Rightarrow> None
      | None \<Rightarrow>
          (case read_ipv6 s of Some (a, []) \<Rightarrow> Some (V6 a) | _ \<Rightarrow> None))"

lemmas ip_reader_defs =
  parse_ip_def read_ipv4_def read_ipv6_def ipv6_of_def read_groups.simps read_octet_def
  read_separator_def read_given_def read_number_def digit_of_def

text \<open>\<open>127.0.0.1\<close>, \<open>::1\<close>, and the rejected \<open>01.0.0.1\<close> and \<open>1.2.3\<close>.\<close>

lemma parse_ip_examples:
  "parse_ip [49, 50, 55, 46, 48, 46, 48, 46, 49] = Some (V4 (Ipv4 127 0 0 1))"
  "parse_ip [58, 58, 49] = Some (V6 (Ipv6 0 0 0 0 0 0 0 1))"
  "parse_ip [48, 49, 46, 48, 46, 48, 46, 49] = None"
  "parse_ip [49, 46, 50, 46, 51] = None"
  by (simp_all add: ip_reader_defs nth_append)

end
