(* ===== verification/Ip_Text.thy ===== *)
theory Ip_Text
  imports Std_Ip
begin

text \<open>
  IP addresses as text, and that \<open>parse_ip\<close> reads them back: every IPv4 address in dotted
  decimal and every IPv6 address with its eight groups written out in hexadecimal with colons, both without leading zeros.
\<close>

definition digit_text :: "nat \<Rightarrow> u8" where
  "digit_text d = of_nat (if d < 10 then 48 + d else 87 + d)"

fun number_text :: "nat \<Rightarrow> nat \<Rightarrow> rstring" where
  "number_text radix n =
     (if n < radix \<or> radix < 2 then [digit_text n]
      else number_text radix (n div radix) @ [digit_text (n mod radix)])"

declare number_text.simps [simp del]

fun ip_text :: "ip_addr \<Rightarrow> rstring" where
  "ip_text (V4 (Ipv4 a b c d)) =
     number_text 10 (unat a) @ [46] @ number_text 10 (unat b) @ [46] @
     number_text 10 (unat c) @ [46] @ number_text 10 (unat d)"
| "ip_text (V6 a) =
     number_text 16 (unat (hd (segments a))) @
     concat (map (\<lambda>g. 58 # number_text 16 (unat g)) (tl (segments a)))"

definition std_radix :: "nat \<Rightarrow> bool" where
  "std_radix radix \<longleftrightarrow> radix = 10 \<or> radix = 16"

lemma std_radix_simps [simp]: "std_radix 10" "std_radix 16"
  by (simp_all add: std_radix_def)

lemma std_radix_ge: "std_radix radix \<Longrightarrow> 2 \<le> radix"
  by (auto simp: std_radix_def)

lemma number_text_small: "n < radix \<Longrightarrow> number_text radix n = [digit_text n]"
  by (simp add: number_text.simps)

lemma number_text_big:
  "std_radix radix \<Longrightarrow> \<not> n < radix \<Longrightarrow>
   number_text radix n = number_text radix (n div radix) @ [digit_text (n mod radix)]"
  using std_radix_ge [of radix] by (subst number_text.simps) simp

lemma number_text_induct [consumes 1, case_names small big]:
  assumes "std_radix radix"
    and "\<And>n. n < radix \<Longrightarrow> P n"
    and "\<And>n. \<not> n < radix \<Longrightarrow> n div radix < n \<Longrightarrow> P (n div radix) \<Longrightarrow> P n"
  shows "P n"
proof (induction n rule: less_induct)
  case (less n)
  show ?case
  proof (cases "n < radix")
    case False
    moreover from this have "n div radix < n"
      using std_radix_ge [OF assms(1)] by (intro div_less_dividend) auto
    ultimately show ?thesis using assms(3) less by blast
  qed (use assms(2) in blast)
qed

lemma number_text_ne [simp]: "number_text radix n \<noteq> []"
  by (subst number_text.simps) simp

lemma unat_digit_text: "d < 16 \<Longrightarrow> unat (digit_text d) = (if d < 10 then 48 + d else 87 + d)"
  unfolding digit_text_def by (subst unat_of_nat_u8) simp_all

lemma digit_of_text: "d < radix \<Longrightarrow> std_radix radix \<Longrightarrow> digit_of radix (digit_text d) = Some d"
  by (auto simp: digit_of_def unat_digit_text std_radix_def)

lemma read_digits_append:
  "read_digits radix m bound acc count (xs @ ys) =
     (case read_digits radix m bound acc count xs of
        Some (acc', count', []) \<Rightarrow> read_digits radix m bound acc' count' ys
      | Some (acc', count', zs) \<Rightarrow> Some (acc', count', zs @ ys)
      | None \<Rightarrow> None)"
  by (induction radix m bound acc count xs rule: read_digits.induct) (auto split: option.split)

text \<open>A number of at most \<open>m\<close> digits, before a byte that is no digit.\<close>

definition ends_number :: "nat \<Rightarrow> u8 list \<Rightarrow> bool" where
  "ends_number radix ys \<longleftrightarrow> (case ys of [] \<Rightarrow> True | y # _ \<Rightarrow> digit_of radix y = None)"

lemma read_digits_end: "ends_number radix ys \<Longrightarrow> read_digits radix m bound acc count ys = Some (acc, count, ys)"
  by (auto simp: ends_number_def split: list.splits)

lemma length_number_text: "std_radix radix \<Longrightarrow> n < radix ^ Suc k \<Longrightarrow> length (number_text radix n) \<le> Suc k"
proof (induction k arbitrary: n)
  case 0
  then show ?case by (simp add: number_text_small)
next
  case (Suc k)
  show ?case
  proof (cases "n < radix")
    case False
    have "n div radix < radix ^ Suc k"
      using Suc.prems by (simp add: less_mult_imp_div_less mult.commute)
    from Suc.IH [OF Suc.prems(1) this] False Suc.prems(1) show ?thesis by (simp add: number_text_big)
  qed (simp add: number_text_small)
qed

lemma read_digits_text:
  assumes "std_radix radix"
  shows "n < bound \<Longrightarrow> length (number_text radix n) \<le> m \<Longrightarrow>
   read_digits radix m bound 0 0 (number_text radix n) = Some (n, length (number_text radix n), [])"
  using assms
proof (induction n rule: number_text_induct)
  case (small n)
  with assms show ?case by (simp add: number_text_small digit_of_text)
next
  case (big n)
  let ?r = "number_text radix (n div radix)"
  have n: "number_text radix n = ?r @ [digit_text (n mod radix)]"
    using assms big(1) by (rule number_text_big)
  have "digit_of radix (digit_text (n mod radix)) = Some (n mod radix)"
    using std_radix_ge [OF assms] assms by (intro digit_of_text) auto
  with big n show ?case by (simp add: read_digits_append)
qed

lemma number_text_zero:
  assumes "std_radix radix"
  shows "hd (number_text radix n) = 48 \<Longrightarrow> n = 0"
  using assms
proof (induction n rule: number_text_induct)
  case (small n)
  then have "digit_text n = digit_text 0" by (simp add: number_text_small digit_text_def)
  with digit_of_text [of n radix] digit_of_text [of 0 radix] small assms show ?case by simp
next
  case (big n)
  then have "n div radix = 0" using assms by (simp add: number_text_big)
  with big(1) std_radix_ge [OF assms] show ?case by (simp add: div_eq_0_iff)
qed

lemma read_number_text:
  assumes "std_radix radix" "n < bound" "length (number_text radix n) \<le> m" "ends_number radix ys"
  shows "read_number radix m z bound (number_text radix n @ ys) = Some (n, ys)"
proof -
  have "length (number_text radix n) = 1" if "n = 0"
    using that std_radix_ge [OF assms(1)] by (simp add: number_text_small)
  then show ?thesis
    using read_digits_text [OF assms(1-3)] number_text_zero [OF assms(1), of n]
    by (auto simp: read_number_def read_digits_append read_digits_end [OF assms(4)])
qed

lemma read_octet_text:
  assumes "ends_number 10 ys"
  shows "read_number 10 3 z 256 (number_text 10 (unat (b :: u8)) @ ys) = Some (unat b, ys)"
  using unat_u8_le [of b] assms length_number_text [of 10 "unat b" 2]
  by (intro read_number_text) auto

lemma parse_ip_v4_text: "parse_ip (ip_text (V4 a)) = Some (V4 a)"
proof (cases a)
  case (Ipv4 a b c d)
  have dot: "ends_number 10 (46 # xs)" and nil: "ends_number 10 []" for xs
    by (simp_all add: ends_number_def digit_of_def)
  show ?thesis
    using read_octet_text [OF dot] read_octet_text [OF nil, of _ d]
    by (simp add: Ipv4 parse_ip_def read_ipv4_def read_octet_def read_separator_def read_given_def)
qed

lemma unat_u16_less: "unat (g :: u16) < 65536"
proof -
  have "unat g < 2 ^ LENGTH(16)" by (rule unsigned_less)
  then show ?thesis by simp
qed

lemma read_group_text:
  assumes "ends_number 16 ys"
  shows "read_number 16 4 z 65536 (number_text 16 (unat (g :: u16)) @ ys) = Some (unat g, ys)"
  using unat_u16_less [of g] assms length_number_text [of 16 "unat g" 3]
  by (intro read_number_text) auto

lemma digit_text_no_dot: "d < 16 \<Longrightarrow> digit_text d \<noteq> 46"
  using unat_digit_text [of d] by (auto split: if_splits)

lemma hex_no_dot: "\<forall>x \<in> set (number_text 16 n). x \<noteq> 46"
proof (induction n rule: number_text_induct [OF std_radix_simps(2)])
  case (1 n)
  then show ?case by (simp add: number_text_small digit_text_no_dot)
next
  case (2 n)
  from number_text_big [OF std_radix_simps(2) 2(1)] 2(3) show ?case
    by (simp add: digit_text_no_dot)
qed

text \<open>A group is not the start of an embedded IPv4 address: no dot follows its digits.\<close>

definition colon_next :: "u8 list \<Rightarrow> bool" where
  "colon_next ys \<longleftrightarrow> (case ys of [] \<Rightarrow> True | y # _ \<Rightarrow> y = 58)"

lemma colon_ends [simp]: "colon_next ys \<Longrightarrow> ends_number 10 ys" "colon_next ys \<Longrightarrow> ends_number 16 ys"
  by (auto simp: colon_next_def ends_number_def digit_of_def split: list.splits)

lemma read_digits_no_dot:
  "\<forall>x \<in> set xs. x \<noteq> 46 \<Longrightarrow> colon_next ys \<Longrightarrow>
   read_digits 10 m bound acc count (xs @ ys) = Some (n, k, zs) \<Longrightarrow> read_given 46 zs = None"
proof (induction xs arbitrary: acc count)
  case Nil
  then show ?case by (auto simp: read_digits_end colon_next_def read_given_def split: list.splits)
next
  case (Cons x xs)
  then show ?case by (auto simp: read_given_def split: option.splits if_splits)
qed

lemma group_no_ipv4: "colon_next ys \<Longrightarrow> read_ipv4 (number_text 16 n @ ys) = None"
  using read_digits_no_dot [of "number_text 16 n" ys] hex_no_dot [of n]
  by (auto simp: read_ipv4_def read_octet_def read_separator_def read_number_def
      split: option.splits prod.splits if_splits)

lemma colon_groups: "colon_next (concat (map (\<lambda>g. 58 # number_text 16 (unat g)) gs))"
  by (cases gs) (simp_all add: colon_next_def)

lemma read_groups_text:
  "0 < i \<Longrightarrow> i + length gs = 8 \<Longrightarrow>
   read_groups 8 i (concat (map (\<lambda>g. 58 # number_text 16 (unat g)) gs)) = (gs, False, [])"
proof (induction gs arbitrary: i)
  case Nil
  then show ?case by (simp add: read_groups.simps)
next
  case (Cons g gs)
  show ?case
    using Cons by (subst read_groups.simps)
      (simp add: read_separator_def read_given_def group_no_ipv4 read_group_text colon_groups)
qed

lemma read_all_groups:
  assumes "length gs = 7"
  shows "read_groups 8 0 (number_text 16 (unat g) @ concat (map (\<lambda>g. 58 # number_text 16 (unat g)) gs)) =
     (g # gs, False, [])"
  using read_groups_text [of 1 gs] assms
  by (subst read_groups.simps) (simp add: read_separator_def colon_groups group_no_ipv4 read_group_text)

lemma parse_ip_text: "parse_ip (ip_text ip) = Some ip"
proof (cases ip)
  case (V4 a)
  then show ?thesis using parse_ip_v4_text by simp
next
  case (V6 a)
  obtain g gs where gs: "segments a = g # gs" "length gs = 7" by (cases a) auto
  moreover from gs have "ipv6_of (g # gs) = a" by (cases a) (auto simp: ipv6_of_def)
  ultimately show ?thesis
    using read_all_groups [OF gs(2), of g]
    by (simp add: V6 parse_ip_def group_no_ipv4 colon_groups read_ipv6_def)
qed

end
