(* ===== verification/Config.thy ===== *)
theory Config
  imports Errors Ip_Text
begin

text \<open>
  \<open>src/config.rs\<close>: the configuration the TOML file is deserialised into, and the resolution
  of a configured address. The deserialiser itself (serde and toml) is not modelled; a name
  is resolved by the parameter \<open>resolve\<close> (\<open>"name:port".to_socket_addrs()\<close>).
\<close>

record cfg_addr =
  cfg_ip :: "rstring option"
  cfg_domain :: "rstring option"
  cfg_port :: u16

datatype incoming_type = InSocks5 | InRocks | InDeny | InRedirect

record ssl_config =
  keyfile :: rstring
  certfile :: rstring

record incoming_config =
  in_type :: incoming_type
  userfile :: "rstring option"
  in_listen_addr :: cfg_addr
  ssl :: "ssl_config option"

datatype outgoing_type = OutRocks | OutDirect | OutIgnore

record outgoing_config =
  out_type :: outgoing_type
  user :: "rstring option"
  out_listen_addr :: "cfg_addr option"

record rocks_config =
  incoming :: incoming_config
  outgoing :: outgoing_config

definition into_addr ::
  "(rstring \<Rightarrow> io_error + sock_addr list) \<Rightarrow> cfg_addr \<Rightarrow> (error, sock_addr) res" where
  "into_addr resolve a =
     (case (cfg_ip a, cfg_domain a) of
        (Some ip, _) \<Rightarrow>
          (case parse_ip ip of
             None \<Rightarrow> Inl (Raise Addr)
           | Some ip \<Rightarrow> Inr (socket_addr ip (cfg_port a)))
      | (None, Some domain) \<Rightarrow>
          bindR (io_q (resolve (domain @ bytes_of '':'' @ bytes_of (show_nat (unat (cfg_port a))))))
            (\<lambda>sas. case sas of
               [] \<Rightarrow> Inl (Raise (from_description ''invalid domain''))
             | addr # _ \<Rightarrow> Inr addr)
      | (None, None) \<Rightarrow> Inl (Raise (from_description ''invalid address in config'')))"

text \<open>
  A configured IP address decides the listen address alone: a domain beside it is ignored and
  the resolver is not asked.
\<close>

lemma into_addr_ip_first:
  assumes "cfg_ip a = Some ip"
  shows "into_addr resolve a =
      (case parse_ip ip of None \<Rightarrow> Inl (Raise Addr) | Some i \<Rightarrow> Inr (socket_addr i (cfg_port a))) \<and>
    into_addr resolve (a\<lparr>cfg_domain := d\<rparr>) = into_addr resolve' a"
  using assms by (simp add: into_addr_def split: option.split)

text \<open>
  C22. An IP address written in the configuration is the one that is used: for every IPv4 address
  in dotted decimal and every IPv6 address with its groups written out, and every port, the
  result is this socket address, whatever domain stands beside it, and nothing is resolved.
\<close>

theorem written_address_used:
  "into_addr resolve \<lparr>cfg_ip = Some (ip_text ip), cfg_domain = d, cfg_port = p\<rparr> = Inr (socket_addr ip p)"
  by (simp add: into_addr_def parse_ip_text)

end
