(* ===== verification/Outgoing.thy ===== *)
theory Outgoing
  imports Req_Addr Config
begin

text \<open>
  \<open>src/outgoing.rs\<close>: the direct outgoing connection. The operating system is given by two
  parameters, the resolver and \<open>connect\<close> (\<open>TcpStream::connect\<close>), which may change a network
  state \<open>'n\<close>; the error numbers are those of the target the program is compiled for.
\<close>

datatype target_os = Windows | Linux | Macos

fun NETWORK_UNREACHABLE :: "target_os \<Rightarrow> int" where
  "NETWORK_UNREACHABLE Windows = 1231"
| "NETWORK_UNREACHABLE Linux = 101"
| "NETWORK_UNREACHABLE Macos = 2"

fun HOST_UNREACHABLE :: "target_os \<Rightarrow> int" where
  "HOST_UNREACHABLE Windows = 1232"
| "HOST_UNREACHABLE Linux = 110"
| "HOST_UNREACHABLE Macos = 1"

fun TTL_EXPIRED :: "target_os \<Rightarrow> int" where
  "TTL_EXPIRED Windows = 10060"
| "TTL_EXPIRED Linux = 113"
| "TTL_EXPIRED Macos = -72006"

record ('n, 's) network =
  resolve :: "rstring \<Rightarrow> u16 \<Rightarrow> io_error + sock_addr list"
  connect :: "sock_addr \<Rightarrow> 'n \<Rightarrow> (io_error + 's) \<times> 'n"

datatype direct_outgoing = DirectOutgoing

definition connect_error :: "target_os \<Rightarrow> io_error \<Rightarrow> error outgoing_error" where
  "connect_error os e =
     (if io_kind e = KConnectionRefused then connection_refused (Io e)
      else
        case io_raw e of
          Some n \<Rightarrow>
            if n = NETWORK_UNREACHABLE os then network_unreachable (Io e)
            else if n = HOST_UNREACHABLE os then host_unreachable (Io e)
            else if n = TTL_EXPIRED os then timed_out (Io e)
            else general (Io e)
        | None \<Rightarrow> general (Io e))"

definition process_request_impl ::
  "target_os \<Rightarrow> ('n, 's) network \<Rightarrow> direct_outgoing \<Rightarrow> req_addr \<Rightarrow> ('n, error outgoing_error, 's) io"
where
  "process_request_impl os N self req n =
     (case resolve_local (resolve N) req of
        Inl Panic \<Rightarrow> (Inl Panic, n)
      | Inl (Raise e) \<Rightarrow> (Inl (Raise (HostUnreachable e)), n)
      | Inr addr \<Rightarrow>
          (case connect N addr n of
             (Inl e, n') \<Rightarrow> (Inl (Raise (connect_error os e)), n')
           | (Inr s, n') \<Rightarrow> (Inr s, n')))"

definition get_outgoing :: "outgoing_config \<Rightarrow> (error, direct_outgoing) res" where
  "get_outgoing conf =
     (case out_type conf of
        OutDirect \<Rightarrow> Inr DirectOutgoing
      | _ \<Rightarrow> Inl (Raise (from_description ''Unsupported outgoing type'')))"

lemma resolve_local_no_panic [simp]: "resolve_local rs r \<noteq> Inl Panic"
  by (auto simp: resolve_local_def bindR_def io_q_def split: req_addr.split sum.split list.split)

lemma process_request_no_panic: "fst (process_request_impl os N self r n) \<noteq> Inl Panic"
  by (auto simp: process_request_impl_def split: sum.split stop.split prod.split)

lemma process_request_dom:
  assumes "process_request_impl os N self r n = (Inr s, n')"
  shows "\<exists>a. resolve_local (resolve N) r = Inr a \<and> connect N a n = (Inr s, n')"
  using assms
  by (auto simp: process_request_impl_def split: sum.splits stop.splits prod.splits)

text \<open>
  A direct connection is opened to the requested port and nothing else: when it succeeds,
  the one \<open>connect\<close> made was to an address with the port of the request, and for an IP
  request to exactly the requested address.
\<close>

lemma direct_connects_to_request:
  assumes "process_request_impl os N self r n = (Inr s, n')"
  shows "\<exists>a. connect N a n = (Inr s, n') \<and> sa_port a = port r \<and> (\<forall>sa. r = IP sa \<longrightarrow> a = sa)"
  using process_request_dom [OF assms]
  by (cases r) (auto simp: resolve_local_def bindR_def split: sum.splits list.splits)

text \<open>
  A request whose name does not resolve fails as "host unreachable" and no connection is
  attempted: the network state is untouched.
\<close>

lemma unresolved_is_host_unreachable:
  assumes "resolve_local (resolve N) r = Inl (Raise e)"
  shows "process_request_impl os N self r n = (Inl (Raise (HostUnreachable e)), n)"
  using assms by (simp add: process_request_impl_def)

end
