(* ===== verification/Connection.thy ===== *)
theory Connection
  imports Req_Addr Transport
begin

text \<open>
  \<open>src/connection.rs\<close>: the relay between an incoming and an outgoing TCP stream. Both are
  split into halves, each half is given to one of two copies, and the copies are joined. A half
  names its stream, a copy (\<open>tokio::io::copy\<close>) is the half it reads and the half it writes, and
  \<open>futures::join!\<close> of two copies is the parameter \<open>copies\<close>: from any two copies and the two
  streams to the two results and the streams afterwards. Its contract \<open>relay_stream\<close> holds of
  any two copies that share no half, however they are wired: each writes to the stream of its
  write half a prefix of what it has read from the stream of its read half, and all of it when
  it reports success.
\<close>

definition l_addr :: "'s tcp \<Rightarrow> 's \<Rightarrow> (error, req_addr) res" where
  "l_addr T s = bindR (io_q (tcp_local_addr T s)) (\<lambda>a. Inr (from_addr a))"

definition p_addr :: "'s tcp \<Rightarrow> 's \<Rightarrow> (error, req_addr) res" where
  "p_addr T s = bindR (io_q (tcp_peer_addr T s)) (\<lambda>a. Inr (from_addr a))"

datatype side = IncomingSide | OutgoingSide

datatype read_half = ReadHalf side

datatype write_half = WriteHalf side

definition split_halves :: "side \<Rightarrow> read_half \<times> write_half" where
  "split_halves s = (ReadHalf s, WriteHalf s)"

type_synonym copy_call = "read_half \<times> write_half"

definition io_copy :: "read_half \<Rightarrow> write_half \<Rightarrow> copy_call" where
  "io_copy reader writer = (reader, writer)"

type_synonym 's copies =
  "copy_call \<Rightarrow> copy_call \<Rightarrow> 's \<Rightarrow> 's \<Rightarrow> ((io_error + u64) \<times> (io_error + u64)) \<times> 's \<times> 's"

text \<open>The four addresses that are asked for first, each with \<open>?\<close>.\<close>

definition ask_addrs :: "'s tcp \<Rightarrow> 's \<Rightarrow> 's \<Rightarrow> (error, req_addr) res" where
  "ask_addrs T i o' =
     bindR (p_addr T i) (\<lambda>_. bindR (l_addr T o') (\<lambda>_. bindR (l_addr T i) (\<lambda>_. p_addr T o')))"

lemma ask_addrs_no_panic [simp]: "ask_addrs T i o' \<noteq> Inl Panic"
  by (auto simp: ask_addrs_def bindR_def l_addr_def p_addr_def split: sum.split)

text \<open>The \<open>match\<close> on the two results.\<close>

definition relay_result :: "(io_error + u64) \<times> (io_error + u64) \<Rightarrow> (error, unit) res" where
  "relay_result rs =
     (case rs of
        (Inr _, Inr _) \<Rightarrow> Inr ()
      | (Inl e, Inr _) \<Rightarrow>
          Inl (Raise (from_description (''copy error first half: '' @ io_text e)))
      | (_, Inl e) \<Rightarrow>
          Inl (Raise (from_description (''copy error second half: '' @ io_text e))))"

definition bicopy :: "'s tcp \<Rightarrow> 's copies \<Rightarrow> 's \<Rightarrow> 's \<Rightarrow> (error, unit) res \<times> 's \<times> 's" where
  "bicopy T copies i o' =
     (case ask_addrs T i o' of
        Inl e \<Rightarrow> (Inl e, i, o')
      | Inr _ \<Rightarrow>
          (let (rin, win) = split_halves IncomingSide;
               (rout, wout) = split_halves OutgoingSide;
               i2o = io_copy rin wout;
               o2i = io_copy rout win
           in case copies i2o o2i i o' of (rs, i', o'') \<Rightarrow> (relay_result rs, i', o'')))"

text \<open>The two copies as they are wired.\<close>

abbreviation i2o_copy :: copy_call where
  "i2o_copy \<equiv> (ReadHalf IncomingSide, WriteHalf OutgoingSide)"

abbreviation o2i_copy :: copy_call where
  "o2i_copy \<equiv> (ReadHalf OutgoingSide, WriteHalf IncomingSide)"

lemma bicopy_wired:
  "bicopy T copies i o' =
     (case ask_addrs T i o' of
        Inl e \<Rightarrow> (Inl e, i, o')
      | Inr _ \<Rightarrow> (case copies i2o_copy o2i_copy i o' of (rs, i', o'') \<Rightarrow> (relay_result rs, i', o'')))"
  by (simp add: bicopy_def split_halves_def io_copy_def split: sum.split)

section \<open>What two copies do\<close>

fun stream_of :: "side \<Rightarrow> 's \<Rightarrow> 's \<Rightarrow> 's" where
  "stream_of IncomingSide i o' = i"
| "stream_of OutgoingSide i o' = o'"

fun read_from :: "copy_call \<Rightarrow> 's \<Rightarrow> 's \<Rightarrow> 's" where
  "read_from (ReadHalf s, w) i o' = stream_of s i o'"

fun written_to :: "copy_call \<Rightarrow> 's \<Rightarrow> 's \<Rightarrow> 's" where
  "written_to (r, WriteHalf s) i o' = stream_of s i o'"

text \<open>
  \<open>copied f r i o' i' o''\<close>: while the streams went from \<open>i\<close>, \<open>o'\<close> to \<open>i'\<close>, \<open>o''\<close>, the copy \<open>f\<close> with
  the result \<open>r\<close> has written a prefix of what it read, and all of it when it reports success.
\<close>

definition copied ::
  "('s \<Rightarrow> u8 list) \<Rightarrow> ('s \<Rightarrow> u8 list) \<Rightarrow> copy_call \<Rightarrow> io_error + u64 \<Rightarrow> 's \<Rightarrow> 's \<Rightarrow> 's \<Rightarrow> 's \<Rightarrow> bool" where
  "copied rcvd sent f r i o' i' o'' \<longleftrightarrow>
     (\<exists>x u. rcvd (read_from f i' o'') = rcvd (read_from f i o') @ x \<and>
        sent (written_to f i' o'') = sent (written_to f i o') @ u \<and> prefix u x \<and>
        (\<not> isl r \<longrightarrow> u = x))"

locale relay_stream = byte_stream T rcvd sent
  for T :: "'s tcp" and rcvd sent +
  fixes copies :: "'s copies"
  assumes copies_spec: "fst f \<noteq> fst g \<Longrightarrow> snd f \<noteq> snd g \<Longrightarrow> copies f g i o' = ((r1, r2), i', o'') \<Longrightarrow>
      copied rcvd sent f r1 i o' i' o'' \<and> copied rcvd sent g r2 i o' i' o''"

text \<open>The contract for the two copies of the relay.\<close>

definition copies_ok ::
  "('s \<Rightarrow> u8 list) \<Rightarrow> ('s \<Rightarrow> u8 list) \<Rightarrow> 's \<Rightarrow> 's \<Rightarrow>
   ((io_error + u64) \<times> (io_error + u64)) \<times> 's \<times> 's \<Rightarrow> bool" where
  "copies_ok rcvd sent i o' res \<longleftrightarrow> (case res of ((r1, r2), i', o'') \<Rightarrow>
     copied rcvd sent i2o_copy r1 i o' i' o'' \<and> copied rcvd sent o2i_copy r2 i o' i' o'')"

section \<open>Facts about every relay\<close>

text \<open>\<open>relayed i o' i' o''\<close>: each side has been sent a prefix of what the other side sent.\<close>

definition relayed :: "('s \<Rightarrow> u8 list) \<Rightarrow> ('s \<Rightarrow> u8 list) \<Rightarrow> 's \<Rightarrow> 's \<Rightarrow> 's \<Rightarrow> 's \<Rightarrow> bool" where
  "relayed rcvd sent i o' i' o'' \<longleftrightarrow>
     (\<exists>x y u v. rcvd i' = rcvd i @ x \<and> sent o'' = sent o' @ u \<and> prefix u x \<and>
        rcvd o'' = rcvd o' @ y \<and> sent i' = sent i @ v \<and> prefix v y)"

text \<open>The same with nothing lost.\<close>

definition relayed_all :: "('s \<Rightarrow> u8 list) \<Rightarrow> ('s \<Rightarrow> u8 list) \<Rightarrow> 's \<Rightarrow> 's \<Rightarrow> 's \<Rightarrow> 's \<Rightarrow> bool" where
  "relayed_all rcvd sent i o' i' o'' \<longleftrightarrow>
     (\<exists>x y. rcvd i' = rcvd i @ x \<and> sent o'' = sent o' @ x \<and>
        rcvd o'' = rcvd o' @ y \<and> sent i' = sent i @ y)"

text \<open>Nothing lost, and everything that was there to be read at the start among it.\<close>

definition delivered ::
  "('s \<Rightarrow> u8 list) \<Rightarrow> ('s \<Rightarrow> u8 list) \<Rightarrow> ('s \<Rightarrow> u8 list) \<Rightarrow> 's \<Rightarrow> 's \<Rightarrow> 's \<Rightarrow> 's \<Rightarrow> bool" where
  "delivered rcvd sent unread i o' i' o'' \<longleftrightarrow>
     (\<exists>x y. rcvd i' = rcvd i @ x \<and> sent o'' = sent o' @ x \<and> prefix (unread i) x \<and>
        rcvd o'' = rcvd o' @ y \<and> sent i' = sent i @ y \<and> prefix (unread o') y)"

lemma delivered_all: "delivered rcvd sent unread i o' i' o'' \<Longrightarrow> relayed_all rcvd sent i o' i' o''"
  by (auto simp: delivered_def relayed_all_def)

text \<open>A copy that reports success has read everything that was there to be read at the start.\<close>

definition drained ::
  "('s \<Rightarrow> u8 list) \<Rightarrow> ('s \<Rightarrow> u8 list) \<Rightarrow> 's \<Rightarrow> 's \<Rightarrow>
   ((io_error + u64) \<times> (io_error + u64)) \<times> 's \<times> 's \<Rightarrow> bool" where
  "drained rcvd unread i o' res \<longleftrightarrow> (case res of ((r1, r2), i', o'') \<Rightarrow>
     (\<not> isl r1 \<longrightarrow> prefix (rcvd i @ unread i) (rcvd i')) \<and>
     (\<not> isl r2 \<longrightarrow> prefix (rcvd o' @ unread o') (rcvd o'')))"

lemma drained_delivered:
  "relayed_all rcvd sent i o' i' o'' \<Longrightarrow> drained rcvd unread i o' ((Inr n, Inr m), i', o'') \<Longrightarrow>
   delivered rcvd sent unread i o' i' o''"
  by (auto simp: relayed_all_def drained_def delivered_def)

lemma relayed_refl: "relayed rcvd sent i o' i o'"
  by (auto simp: relayed_def)

lemma copies_ok_relayed: "copies_ok rcvd sent i o' (rs, i', o'') \<Longrightarrow> relayed rcvd sent i o' i' o''"
  by (cases rs) (auto simp: copies_ok_def copied_def relayed_def)

lemma copies_ok_all:
  "copies_ok rcvd sent i o' ((Inr n, Inr m), i', o'') \<Longrightarrow> relayed_all rcvd sent i o' i' o''"
  by (auto simp: copies_ok_def copied_def relayed_all_def)

lemma relay_result_simps [simp]:
  "relay_result rs \<noteq> Inl Panic"
  "relay_result rs = Inr u \<longleftrightarrow> (\<exists>n m. rs = (Inr n, Inr m))"
  by (auto simp: relay_result_def split: prod.split sum.split)

context relay_stream
begin

lemma wired_ok: "copies_ok rcvd sent i o' (copies i2o_copy o2i_copy i o')"
  using copies_spec [of i2o_copy o2i_copy i o'] by (auto simp: copies_ok_def split: prod.split)

lemma bicopy_relays:
  assumes "bicopy T copies i o' = (r, i', o'')"
  shows "r \<noteq> Inl Panic \<and> relayed rcvd sent i o' i' o''"
proof (cases "ask_addrs T i o'")
  case (Inl e)
  then show ?thesis
    using assms relayed_refl
    by (auto simp: bicopy_def ask_addrs_def bindR_def l_addr_def p_addr_def split: sum.splits)
next
  case (Inr x)
  obtain rs i1 o1 where c: "copies i2o_copy o2i_copy i o' = (rs, i1, o1)"
    by (cases "copies i2o_copy o2i_copy i o'") auto
  with wired_ok [of i o'] Inr assms show ?thesis
    by (auto simp: bicopy_wired dest: copies_ok_relayed)
qed

lemma bicopy_complete:
  assumes "bicopy T copies i o' = (Inr u, i', o'')"
  shows "relayed_all rcvd sent i o' i' o''"
proof -
  from assms obtain n m where "copies i2o_copy o2i_copy i o' = ((Inr n, Inr m), i', o'')"
    by (auto simp: bicopy_wired split: sum.splits prod.splits)
  with wired_ok [of i o'] show ?thesis by (auto dest: copies_ok_all)
qed

end

section \<open>A relay in memory\<close>

text \<open>
  Two copies in memory: each stream is read to its end, and is sent what was to be read from the
  stream of the copy that writes to it.
\<close>

definition mem_source :: "copy_call \<Rightarrow> copy_call \<Rightarrow> side \<Rightarrow> mem_stream \<Rightarrow> mem_stream \<Rightarrow> mem_stream" where
  "mem_source f g s i o' = read_from (if snd f = WriteHalf s then f else g) i o'"

definition mem_copied :: "copy_call \<Rightarrow> copy_call \<Rightarrow> side \<Rightarrow> mem_stream \<Rightarrow> mem_stream \<Rightarrow> mem_stream" where
  "mem_copied f g s i o' =
     (stream_of s i o')\<lparr>ms_in := [], ms_read := ms_read (stream_of s i o') @ ms_in (stream_of s i o'),
        ms_out := ms_out (stream_of s i o') @ ms_in (mem_source f g s i o')\<rparr>"

definition mem_copies :: "mem_stream copies" where
  "mem_copies f g i o' =
     ((Inr (of_nat (length (ms_in (read_from f i o')))), Inr (of_nat (length (ms_in (read_from g i o'))))),
      mem_copied f g IncomingSide i o', mem_copied f g OutgoingSide i o')"

lemmas mem_copies_eval = mem_copies_def mem_copied_def mem_source_def

lemma stream_of_copied [simp]:
  "stream_of s (mem_copied f g IncomingSide i o') (mem_copied f g OutgoingSide i o') = mem_copied f g s i o'"
  by (cases s) simp_all

lemma mem_copies_copied:
  assumes "fst f \<noteq> fst g" and "snd f \<noteq> snd g" and "mem_copies f g i o' = ((r1, r2), i', o'')"
  shows "copied ms_read ms_out f r1 i o' i' o'' \<and> copied ms_read ms_out g r2 i o' i' o''"
proof -
  obtain a b where f: "f = (ReadHalf a, WriteHalf b)" by (metis prod.exhaust read_half.exhaust write_half.exhaust)
  obtain a' b' where g: "g = (ReadHalf a', WriteHalf b')" by (metis prod.exhaust read_half.exhaust write_half.exhaust)
  from assms show ?thesis
    by (auto simp: f g mem_copies_def copied_def) (simp_all add: mem_copied_def mem_source_def)
qed

interpretation mem_relay: relay_stream mem_tcp ms_read ms_out mem_copies
  by unfold_locales (rule mem_copies_copied)

lemma mem_relays: "relay_stream mem_tcp ms_read ms_out mem_copies"
  by (rule mem_relay.relay_stream_axioms)

end
