(* ===== verification/Client_Manager.thy ===== *)
theory Client_Manager
  imports Socks5_Exchange Outgoing Connection
begin

text \<open>
  \<open>src/client_manager.rs\<close>: what happens to one accepted client. The code is generic over the
  trait \<open>IncomingClient\<close> (\<open>src/incoming.rs\<close>), which is a record of its three operations, and
  over \<open>Outgoing\<close>, whose one operation is an argument. The state of the task is the client,
  the state of the network, the lines logged with \<open>error!\<close>, and, to observe what happens to
  the two streams that the relay consumes, the pairs it left behind.
\<close>

record ('c, 'i) incoming_client =
  ic_next_request :: "('c, error, req_addr) io"
  ic_abort :: "error outgoing_error \<Rightarrow> req_addr \<Rightarrow> ('c, error, unit) io"
  ic_ready_for_connect :: "req_addr \<Rightarrow> ('c, error, 'i) io"

datatype log_line =
    HandleRequestError error   \<comment> \<open>can't handle request\<close>
  | AbortError error           \<comment> \<open>handle\_request error\<close>
  | NotReadyError error        \<comment> \<open>can't get ready stream\<close>
  | TransferError error        \<comment> \<open>error during transfer\<close>

record ('c, 's, 'n) task =
  client :: 'c
  net :: 'n
  log :: "log_line list"
  relays :: "('s \<times> 's) list"

definition on_client :: "('c, error, 'a) io \<Rightarrow> (('c, 's, 'n) task, error, 'a) io" where
  "on_client m t = (case m (client t) of (r, c) \<Rightarrow> (r, t\<lparr>client := c\<rparr>))"

definition on_net :: "('n, error outgoing_error, 'a) io \<Rightarrow> (('c, 's, 'n) task, error outgoing_error, 'a) io" where
  "on_net m t = (case m (net t) of (r, n) \<Rightarrow> (r, t\<lparr>net := n\<rparr>))"

definition log_error :: "log_line \<Rightarrow> (('c, 's, 'n) task, error, unit) io" where
  "log_error l t = (Inr (), t\<lparr>log := log t @ [l]\<rparr>)"

definition relay :: "'s tcp \<Rightarrow> 's copies \<Rightarrow> 's \<Rightarrow> 's \<Rightarrow> (('c, 's, 'n) task, error, unit) io" where
  "relay T copies i o' t =
     (case bicopy T copies i o' of (r, i', o'') \<Rightarrow> (r, t\<lparr>relays := relays t @ [(i', o'')]\<rparr>))"

definition abort_client ::
  "('c, 's) incoming_client \<Rightarrow> error outgoing_error \<Rightarrow> req_addr \<Rightarrow> (('c, 's, 'n) task, error, unit) io" where
  "abort_client IC err req =
     bindE (attempt (on_client (ic_abort IC err req))) (\<lambda>r.
     case r of Inl e \<Rightarrow> log_error (AbortError e) | Inr _ \<Rightarrow> ret ())"

definition process_request ::
  "('c, 's) incoming_client \<Rightarrow> 's tcp \<Rightarrow> 's copies \<Rightarrow>
   (req_addr \<Rightarrow> ('n, error outgoing_error, 's) io) \<Rightarrow> req_addr \<Rightarrow> (('c, 's, 'n) task, error, unit) io" where
  "process_request IC T copies og r =
     bindE (attempt (on_net (og r))) (\<lambda>res.
     case res of
       Inr out \<Rightarrow>
         bindE (attempt (on_client (ic_ready_for_connect IC r))) (\<lambda>res.
         case res of
           Inr inc \<Rightarrow>
             bindE (attempt (relay T copies inc out)) (\<lambda>res.
             case res of
               Inl e \<Rightarrow> log_error (TransferError e)
             | Inr _ \<Rightarrow> ret ())
         | Inl e \<Rightarrow> log_error (NotReadyError e))
     | Inl e \<Rightarrow> abort_client IC e r)"

definition handle_client ::
  "('c, 's) incoming_client \<Rightarrow> 's tcp \<Rightarrow> 's copies \<Rightarrow>
   (direct_outgoing \<Rightarrow> req_addr \<Rightarrow> ('n, error outgoing_error, 's) io) \<Rightarrow> outgoing_config \<Rightarrow>
   (('c, 's, 'n) task, error, unit) io" where
  "handle_client IC T copies process outgoing_cfg =
     bindE (attempt (on_client (ic_next_request IC))) (\<lambda>res.
     case res of
       Inr r \<Rightarrow>
         bindE (attempt (lift_res (get_outgoing outgoing_cfg))) (\<lambda>res.
         case res of
           Inr og \<Rightarrow> process_request IC T copies (process og) r
         | Inl e \<Rightarrow> abort_client IC (GeneralFailure e) r)
     | Inl e \<Rightarrow> log_error (HandleRequestError e))"

lemma bicopy_no_panic: "fst (bicopy T copies i o') \<noteq> Inl Panic"
  by (auto simp: bicopy_wired ask_addrs_def bindR_def l_addr_def p_addr_def split: sum.split prod.split)

lemma get_outgoing_no_panic [simp]: "get_outgoing cfg \<noteq> Inl Panic"
  by (simp add: get_outgoing_def split: outgoing_type.split)

text \<open>\<open>attempt\<close> of a part of the task, when that part does not panic.\<close>

lemma attempt_on_client:
  "ic m = (r, c) \<Longrightarrow> m = client t \<Longrightarrow> r \<noteq> Inl Panic \<Longrightarrow> attempt (on_client ic) t =
     (Inr (case r of Inl (Raise e) \<Rightarrow> Inl e | Inr x \<Rightarrow> Inr x), t\<lparr>client := c\<rparr>)"
  by (auto simp: attempt_def on_client_def split: sum.split stop.split)

section \<open>The contract of an incoming client\<close>

text \<open>
  What the manager relies on, over the bytes \<open>written\<close> to the client so far: a request that
  is returned is \<open>answerable\<close> and only the \<open>hello\<close> has been written; an abort writes the
  \<open>refusal\<close>, readiness the \<open>acceptance\<close>, and either of them may fail halfway.
\<close>

locale incoming_client_contract =
  fixes IC :: "('c, 's) incoming_client"
    and written :: "'c \<Rightarrow> u8 list"
    and handed :: "'s \<Rightarrow> u8 list"
    and answerable :: "req_addr \<Rightarrow> bool"
    and hello :: "u8 list"
    and refusal :: "error outgoing_error \<Rightarrow> req_addr \<Rightarrow> u8 list"
    and acceptance :: "req_addr \<Rightarrow> u8 list"
  assumes next_ok: "ic_next_request IC c = (Inr r, c') \<Longrightarrow>
      answerable r \<and> written c' = written c @ hello"
    and abort_ok: "ic_abort IC e r c = (Inr u, c') \<Longrightarrow> written c' = written c @ refusal e r"
    and abort_fail: "ic_abort IC e r c = (Inl x, c') \<Longrightarrow> answerable r \<Longrightarrow>
      x \<noteq> Panic \<and> (\<exists>v. written c' = written c @ v \<and> prefix v (refusal e r))"
    and ready_ok: "ic_ready_for_connect IC r c = (Inr s, c') \<Longrightarrow>
      handed s = written c @ acceptance r"
    and ready_fail: "ic_ready_for_connect IC r c = (Inl x, c') \<Longrightarrow> answerable r \<Longrightarrow>
      x \<noteq> Panic \<and> (\<exists>v. written c' = written c @ v \<and> prefix v (acceptance r))"
begin

text \<open>
  The ways the work on a request ends, with what is written to the client, the relays and the log:
  a refusal, cut short only if that is logged; an acceptance that could not be completed; the
  complete acceptance and then the relay.
\<close>

definition refused_with ::
  "u8 list \<Rightarrow> u8 list \<Rightarrow> ('c, 's, 'n) task \<Rightarrow> ('c, 's, 'n) task \<Rightarrow> bool" where
  "refused_with pre reply t t' \<longleftrightarrow> relays t' = relays t \<and>
     (\<exists>v. written (client t') = written (client t) @ pre @ v \<and> prefix v reply \<and>
       (v = reply \<and> log t' = log t \<or> (\<exists>x. log t' = log t @ [AbortError x])))"

definition cut_short ::
  "u8 list \<Rightarrow> u8 list \<Rightarrow> ('c, 's, 'n) task \<Rightarrow> ('c, 's, 'n) task \<Rightarrow> bool" where
  "cut_short pre reply t t' \<longleftrightarrow> relays t' = relays t \<and>
     (\<exists>v. written (client t') = written (client t) @ pre @ v \<and> prefix v reply) \<and>
     (\<exists>x. log t' = log t @ [NotReadyError x])"

definition relayed_after ::
  "'s tcp \<Rightarrow> 's copies \<Rightarrow> u8 list \<Rightarrow> u8 list \<Rightarrow> 's \<Rightarrow> ('c, 's, 'n) task \<Rightarrow> ('c, 's, 'n) task \<Rightarrow> bool" where
  "relayed_after T copies pre reply out t t' \<longleftrightarrow>
     (\<exists>inc i' o'' b. handed inc = written (client t) @ pre @ reply \<and>
        bicopy T copies inc out = (b, i', o'') \<and> relays t' = relays t @ [(i', o'')] \<and>
        log t' = log t @ (case b of Inl (Raise x) \<Rightarrow> [TransferError x] | _ \<Rightarrow> []))"

lemma abort_client_refuses:
  assumes "abort_client IC e r t = (res, t')" and "answerable r"
  shows "res = Inr () \<and> net t' = net t \<and> refused_with [] (refusal e r) t t'"
proof (cases "ic_abort IC e r (client t)")
  case (Pair a c)
  show ?thesis
  proof (cases a)
    case (Inl x)
    with abort_fail [of e r "client t" x c] Pair assms obtain y where "x = Raise y"
      by (cases x) auto
    with abort_fail [of e r "client t" x c] Pair Inl assms show ?thesis
      by (auto simp: abort_client_def bindE_def attempt_def on_client_def log_error_def refused_with_def)
  next
    case (Inr u)
    with abort_ok [of e r "client t" u c] Pair assms show ?thesis
      by (auto simp: abort_client_def bindE_def attempt_def on_client_def refused_with_def)
  qed
qed

lemma process_request_ends:
  assumes run: "process_request IC T copies og r t = (res, t')" and r: "answerable r"
    and og: "og r (net t) = (a, n)" "a \<noteq> Inl Panic"
  shows "res = Inr () \<and> net t' = n \<and>
    (case a of
       Inl (Raise e) \<Rightarrow> refused_with [] (refusal e r) t t'
     | Inr out \<Rightarrow> cut_short [] (acceptance r) t t' \<or> relayed_after T copies [] (acceptance r) out t t'
     | Inl Panic \<Rightarrow> False)"
proof -
  consider (failed) e where "a = Inl (Raise e)" | (connected) out where "a = Inr out"
    using og(2) by (cases a) (auto, metis stop.exhaust)
  then show ?thesis
  proof cases
    case failed
    with run og have "abort_client IC e r (t\<lparr>net := n\<rparr>) = (res, t')"
      by (simp add: process_request_def bindE_def attempt_def on_net_def)
    from abort_client_refuses [OF this r] failed show ?thesis
      by (auto simp: refused_with_def)
  next
    case connected
    obtain b c where ready: "ic_ready_for_connect IC r (client t) = (b, c)"
      by (cases "ic_ready_for_connect IC r (client t)") auto
    show ?thesis
    proof (cases b)
      case (Inl x)
      with ready_fail [of r "client t" x c] ready r obtain y where y: "x = Raise y"
        by (cases x) auto
      with ready_fail [of r "client t" x c] Inl ready r run og connected show ?thesis
        by (auto simp: process_request_def bindE_def attempt_def on_net_def on_client_def
            log_error_def cut_short_def)
    next
      case (Inr inc)
      obtain z i' o'' where z: "bicopy T copies inc out = (z, i', o'')"
        by (cases "bicopy T copies inc out") auto
      with bicopy_no_panic [of T copies inc out] have "z \<noteq> Inl Panic" by simp
      with ready_ok [of r "client t" inc c] Inr ready run og connected z show ?thesis
        by (cases z; (cases "projl z")?)
          (auto simp: process_request_def bindE_def attempt_def on_net_def on_client_def relay_def
            log_error_def relayed_after_def)
    qed
  qed
qed

lemma handle_client_ends:
  assumes run: "handle_client IC T copies process cfg t = (res, t')"
    and nxt: "ic_next_request IC (client t) = (Inr r, c)"
    and og: "\<And>o' r n. fst (process o' r n) \<noteq> Inl Panic"
  shows "res = Inr () \<and>
    (case get_outgoing cfg of
       Inl (Raise e) \<Rightarrow> net t' = net t \<and> refused_with hello (refusal (GeneralFailure e) r) t t'
     | Inl Panic \<Rightarrow> False
     | Inr d \<Rightarrow>
         (case process d r (net t) of
            (Inl (Raise e), n) \<Rightarrow> net t' = n \<and> refused_with hello (refusal e r) t t'
          | (Inl Panic, n) \<Rightarrow> False
          | (Inr out, n) \<Rightarrow> net t' = n \<and>
              (cut_short hello (acceptance r) t t' \<or>
               relayed_after T copies hello (acceptance r) out t t')))"
proof -
  let ?t = "t\<lparr>client := c\<rparr>"
  from next_ok [OF nxt] have r: "answerable r" and w: "written c = written (client t) @ hello"
    by simp_all
  show ?thesis
  proof (cases "get_outgoing cfg")
    case (Inl x)
    then obtain e where "x = Raise e" by (cases x) auto
    with run nxt Inl have "abort_client IC (GeneralFailure e) r ?t = (res, t')"
      by (simp add: handle_client_def bindE_def attempt_def on_client_def)
    from abort_client_refuses [OF this r] w Inl \<open>x = Raise e\<close> show ?thesis
      by (auto simp: refused_with_def)
  next
    case (Inr d)
    with run nxt have p: "process_request IC T copies (process d) r ?t = (res, t')"
      by (simp add: handle_client_def bindE_def attempt_def on_client_def)
    obtain a n where a: "process d r (net ?t) = (a, n)" by (cases "process d r (net ?t)") auto
    with og [of d r "net ?t"] have "a \<noteq> Inl Panic" by simp
    from process_request_ends [OF p r a this] a w Inr show ?thesis
      by (cases a; (cases "projl a")?) (auto simp: refused_with_def cut_short_def relayed_after_def)
  qed
qed

end

section \<open>The SOCKS5 client satisfies the contract\<close>

definition socks5_client :: "'s tcp \<Rightarrow> bool \<Rightarrow> ('s socks5_connected, 's) incoming_client" where
  "socks5_client T debug_on =
     \<lparr>ic_next_request = next_request T debug_on, ic_abort = abort T,
      ic_ready_for_connect = ready_for_connect T\<rparr>"

locale socks5_server = byte_stream T rcvd sent
  for T :: "'s tcp" and rcvd sent +
  fixes debug_on :: bool

sublocale socks5_server \<subseteq> sc: incoming_client_contract "socks5_client T debug_on" "seen_on sent" sent
  fits_reply "[5, 0]" "\<lambda>e r. reply_wire (get_reason e) r" "\<lambda>r. reply_wire S5Success r"
  by unfold_locales
    (auto simp: socks5_client_def abort_def dest!: next_request_ok accepts_fits send_ok
      dest: send_fail ready_ok ready_fail)

interpretation mem_server: socks5_server mem_tcp ms_read ms_out False
  by unfold_locales

end
