(* ===== verification/Socks5_Properties.thy ===== *)
theory Socks5_Properties
  imports Socks5_Exchange
begin

text \<open>
  What the SOCKS5 handshake guarantees its callers: first over any byte stream, whatever
  fails, then the complete exchanges over a scripted stream. Each has a witness that runs the
  model on a client in memory.
\<close>

definition client_of :: "u8 list \<Rightarrow> mem_stream socks5_connected" where
  "client_of bs =
     \<lparr>local_addr = socket_addr (V4 (Ipv4 127 0 0 1)) 1080,
      remote_addr = socket_addr (V4 (Ipv4 127 0 0 1)) 50000,
      stream = Some (mem_of bs)\<rparr>"

lemma client_of_simps [simp]:
  "stream (client_of bs) = Some (mem_of bs)" "ms_in (mem_of bs) = bs" "ms_out (mem_of bs) = []"
  "ms_read (mem_of bs) = []"
  by (simp_all add: client_of_def mem_of_def)

lemma client_of_conn: "client_of bs = mem_conn (client_of bs) bs [] []"
  by (simp add: mem_conn_def client_of_def mem_of_def)

section \<open>Any byte stream\<close>

text \<open>
  C1. Soundness of the handshake over any stream, reads and writes failing anywhere: when a
  request is returned, the bytes consumed are exactly a greeting that offers "no authentication"
  and a CONNECT request that encodes some address \<open>a\<close>, what is returned is \<open>a\<close> as the code parses
  it (\<open>as_parsed\<close>: \<open>a\<close> itself, but for the port of an IPv4 address, which is read from the wrong
  bytes), and the only bytes written are the method choice.
\<close>

theorem handshake_sound:
  assumes "byte_stream T rcvd sent" and "next_request T debug_on c = (Inr r, c')"
  shows "\<exists>ms rsv a. length ms \<le> 255 \<and> SOCKS5_NO_AUTH \<in> set ms \<and> requestable a \<and> r = as_parsed a \<and>
    seen_on rcvd c' = seen_on rcvd c @ greeting ms @ [SOCKS5_PROTOCOL, SOCKS5_CMD_CONNECT, rsv] @ addr_wire a \<and>
    seen_on sent c' = seen_on sent c @ [SOCKS5_PROTOCOL, SOCKS5_NO_AUTH]"
proof -
  from byte_stream.next_request_ok [OF assms] obtain ms h where
    h: "seen_on rcvd c' = seen_on rcvd c @ [5, of_nat (length ms)] @ ms @ h" "accepts h r"
    and ms: "length ms \<le> 255" "0 \<in> set ms" "seen_on sent c' = seen_on sent c @ [5, 0]" by blast
  from accepts_request [OF h(2)] obtain v a where
    "h = [5, 1, v] @ addr_wire a" "requestable a" "r = as_parsed a" by blast
  with h(1) ms show ?thesis
    by (intro exI [of _ ms] exI [of _ v] exI [of _ a]) (simp add: greeting_def socks5_consts)
qed

theorem handshake_sound_witness:
  "\<exists>c' ms rsv a. next_request mem_tcp False (client_of (greeting [0] @ request (DomainName [0x61] 80))) =
      (Inr (DomainName [0x61] 80), c') \<and> as_parsed a = DomainName [0x61] 80 \<and>
    ms_read (the (stream c')) = greeting ms @ [5, 1, rsv] @ addr_wire a \<and> ms_out (the (stream c')) = [5, 0]"
proof -
  let ?c = "client_of (greeting [0] @ request (DomainName [0x61] 80))"
  have c: "?c = mem_conn ?c (greeting [0] @ request (DomainName [0x61] 80) @ []) [] []"
    by (simp add: client_of_conn [symmetric])
  obtain c' where run: "next_request mem_tcp False ?c = (Inr (DomainName [0x61] 80), c')"
    using mem_next_request [of "[0]" "DomainName [0x61] 80" False ?c "[]" "[]" "[]"] c
    by (simp add: socks5_consts)
  from handshake_sound [OF mem_bytes run] obtain ms rsv a where
    "DomainName [0x61] 80 = as_parsed a" "seen_on ms_read c' = greeting ms @ [5, 1, rsv] @ addr_wire a"
    "seen_on ms_out c' = [5, 0]"
    by (auto simp: seen_on_def socks5_consts)
  then show ?thesis
    by (intro exI [of _ c'] exI [of _ ms] exI [of _ rsv] exI [of _ a])
      (use run in \<open>auto simp: seen_on_def split: option.splits\<close>)
qed

text \<open>
  What a failed handshake has written, whatever failed and wherever: a prefix of the
  method refusal, or the method choice followed by a prefix of one of the two refusals of a
  request. It never writes the success reply.
\<close>

lemma failed_handshake_output:
  assumes "byte_stream T rcvd sent" and "next_request T debug_on c = (Inl e, c')"
  shows "\<exists>u. seen_on sent c' = seen_on sent c @ u \<and>
    (prefix u [SOCKS5_PROTOCOL, SOCKS5_NO_ACCEPTABLE_METHOD] \<or>
     prefix u [SOCKS5_PROTOCOL, SOCKS5_NO_AUTH] \<or>
     (\<exists>v. u = [SOCKS5_PROTOCOL, SOCKS5_NO_AUTH] @ v \<and> rejection v))"
  using byte_stream.next_request_fail [OF assms] by (simp add: socks5_consts)

text \<open>
  C20. The handshake panics on two kinds of input only, both domain requests: a name of at
  least 254 bytes, and, while the logger prints at level \<open>debug\<close>, a name that is not UTF-8.
\<close>

theorem handshake_panics_only:
  assumes "byte_stream T rcvd sent" and "next_request T debug_on c = (Inl Panic, c')"
  shows "\<exists>ms h. seen_on rcvd c' =
      seen_on rcvd c @ [SOCKS5_PROTOCOL, of_nat (length ms)] @ ms @ h \<and> panics debug_on h"
  using byte_stream.next_request_panic [OF assms] by (simp add: socks5_consts)

theorem handshake_panics_only_witness:
  "\<exists>ms h. seen_on ms_read (snd (next_request mem_tcp False
        (client_of (greeting [0] @ [5, 1, 0, 3, 255])))) =
      [SOCKS5_PROTOCOL, of_nat (length ms)] @ ms @ h \<and> panics False h"
proof -
  let ?c = "client_of (greeting [0] @ [5, 1, 0, 3, 255])"
  have c: "?c = mem_conn ?c (greeting [0] @ [5, 1, 0, 3, 255]) [] []"
    by (simp add: client_of_conn [symmetric])
  obtain c' where run: "next_request mem_tcp False ?c = (Inl Panic, c')"
    using mem_authenticate [of "[0]" ?c "[5, 1, 0, 3, 255]" "[]" "[]"] c
      mem_long_domain [of 255 False ?c 0 "[]" "greeting [0]" "[5, 0]"]
    by (simp add: next_request_def socks5_consts)
  from handshake_panics_only [OF mem_bytes run] run show ?thesis
    by (simp add: seen_on_def)
qed

text \<open>
  Every address the handshake returns can be answered: no reply to it panics, whatever
  the reply code and whatever the state of the connection by then.
\<close>

lemma returned_address_answerable:
  assumes "byte_stream T rcvd sent" and "next_request T debug_on c = (Inr r, c')"
  shows "fst (send_final_response T code r c'') \<noteq> Inl Panic"
proof -
  from byte_stream.next_request_ok [OF assms] have "fits_reply r"
    by (auto dest: byte_stream.accepts_fits [OF assms(1)])
  then show ?thesis
    using byte_stream.send_fail [OF assms(1), of code r c'']
    by (cases "send_final_response T code r c''") auto
qed

text \<open>
  The stream is handed to the relay only after the whole success reply for the requested
  address has been written, and the connection has given it up.
\<close>

lemma ready_hands_over:
  assumes "byte_stream T rcvd sent" and "ready_for_connect T r c = (Inr s, c')"
  shows "sent s = seen_on sent c @ reply_wire S5Success r \<and> rcvd s = seen_on rcvd c \<and>
    stream c' = None \<and> fst (write_all T bs c') = Inl (Raise NotConnected)"
  using byte_stream.ready_ok [OF assms] by (simp add: write_all_def)

section \<open>Complete exchanges\<close>



text \<open>
  A client that does not offer "no authentication" is told that no method is acceptable,
  and the handshake ends with an error and nothing else written or read.
\<close>

lemma no_method_refused:
  assumes "scripted_stream T rcvd sent unread" and "stream c = Some s"
    and "unread s = greeting ms @ rest" and "length ms \<le> 255" and "SOCKS5_NO_AUTH \<notin> set ms"
  shows "\<exists>c' s'. next_request T debug_on c =
      (Inl (Raise (from_description ''No supported method given'')), c') \<and> stream c' = Some s' \<and>
    unread s' = rest \<and> sent s' = sent s @ [SOCKS5_PROTOCOL, SOCKS5_NO_ACCEPTABLE_METHOD]"
proof -
  have "next_request mem_tcp debug_on (mem_conn d (unread s) (rcvd s) (sent s)) =
      (Inl (Raise (from_description ''No supported method given'')),
       mem_conn d rest (rcvd s @ greeting ms)
         (sent s @ [SOCKS5_PROTOCOL, SOCKS5_NO_ACCEPTABLE_METHOD]))" for d
    using assms(4,5) by (simp add: next_request_def assms(3) mem_authenticate)
  from run_from_memory [OF scripted_stream.sim_next_request [OF assms(1)] assms(2) refl this]
  show ?thesis by (simp add: from_description_def)
qed

text \<open>
  C26. A request with an unknown address type is answered twice: the reply "address type not
  supported" is written once where the type is found unknown and once more for the failed
  parse, before the handshake ends with the error.
\<close>

theorem unknown_type_replied_twice:
  assumes "scripted_stream T rcvd sent unread" and "stream c = Some s"
    and "unread s = [SOCKS5_PROTOCOL, SOCKS5_CMD_CONNECT, rsv, atyp, b0] @ rest"
    and "atyp \<notin> {1, 3, 4}"
  shows "\<exists>c' s'. get_request T debug_on c = (Inl (Raise InvalidSocks5AddrType), c') \<and>
    stream c' = Some s' \<and> sent s' = sent s @
      reply_wire S5AddressTypeNotSupported default_req_addr @
      reply_wire S5AddressTypeNotSupported default_req_addr"
  using run_from_memory [OF scripted_stream.sim_get_request [OF assms(1)] assms(2) refl]
    mem_unknown_type [OF assms(4)] assms(3)
  by (fastforce simp: socks5_consts)

theorem unknown_type_replied_twice_witness:
  "\<exists>c' s'. get_request mem_tcp False (client_of [5, 1, 0, 2, 9]) =
      (Inl (Raise InvalidSocks5AddrType), c') \<and> stream c' = Some s' \<and>
    ms_out s' = [5, 8, 0, 1, 127, 0, 0, 1, 0, 0, 5, 8, 0, 1, 127, 0, 0, 1, 0, 0]"
  using unknown_type_replied_twice [OF mem_scripted, of "client_of [5, 1, 0, 2, 9]" _ 0 2 9 "[]" False]
  by (simp add: socks5_consts reply_wire_def default_req_addr_def wire_defs hi8_def lo8_def)

text \<open>
  A request for anything but CONNECT is answered once, with "command not supported", and
  refused; the rest of the request stays unread.
\<close>

lemma not_connect_refused:
  assumes "scripted_stream T rcvd sent unread" and "stream c = Some s"
    and "unread s = [SOCKS5_PROTOCOL, cmd, rsv, atyp, b0] @ rest" and "cmd \<noteq> SOCKS5_CMD_CONNECT"
  shows "\<exists>c' s'. get_request T debug_on c =
      (Inl (Raise (from_description ''req cmd is not connect'')), c') \<and> stream c' = Some s' \<and>
    unread s' = rest \<and> sent s' = sent s @ reply_wire S5CommandNotSupported default_req_addr"
  using run_from_memory [OF scripted_stream.sim_get_request [OF assms(1)] assms(2) refl]
    mem_not_connect [of cmd] assms(3,4)
  by (fastforce simp: socks5_consts from_description_def)

text \<open>
  A domain name of 254 or 255 bytes, which the protocol allows, panics the handler: the
  slice of its 255-byte buffer is out of range. Nothing of the name is read and no reply is
  sent.
\<close>

lemma long_domain_panics:
  assumes "scripted_stream T rcvd sent unread" and "stream c = Some s"
    and "unread s = [SOCKS5_PROTOCOL, SOCKS5_CMD_CONNECT, rsv, addr_type_code DOMAIN, b0] @ rest"
    and "254 \<le> unat b0"
  shows "\<exists>c' s'. get_request T debug_on c = (Inl Panic, c') \<and> stream c' = Some s' \<and>
    unread s' = rest \<and> sent s' = sent s"
  using run_from_memory [OF scripted_stream.sim_get_request [OF assms(1)] assms(2) refl]
    mem_long_domain [OF assms(4)] assms(3)
  by (fastforce simp: socks5_consts)

text \<open>
  A domain name that is not UTF-8 is refused with one reply, but only while the logger
  is below level \<open>debug\<close>: at that level the log statement unwraps the parser's error first,
  and the handler panics without a reply.
\<close>

lemma bad_utf8_domain:
  assumes "scripted_stream T rcvd sent unread" and "stream c = Some s"
    and "unread s = [SOCKS5_PROTOCOL, SOCKS5_CMD_CONNECT, rsv, addr_type_code DOMAIN, b0] @ name @
      [hi, lo] @ rest"
    and "length name = unat b0" and "unat b0 \<le> 253" and "\<not> utf8_valid name"
  shows "\<exists>c' s'. get_request T debug_on c =
      ((if debug_on then Inl Panic else Inl (Raise Utf8)), c') \<and> stream c' = Some s' \<and>
    unread s' = rest \<and> sent s' = sent s @
      (if debug_on then [] else reply_wire S5AddressTypeNotSupported default_req_addr)"
  using run_from_memory [OF scripted_stream.sim_get_request [OF assms(1)] assms(2) refl]
    mem_bad_utf8 [OF assms(4-6)] assms(3)
  by (cases debug_on) (fastforce simp: socks5_consts)+

end
