(* ===== verification/Tunnel.thy ===== *)
theory Tunnel
  imports Client_Manager Socks5_Properties
begin

text \<open>
  The whole of one client's task, the manager over the SOCKS5 client and the direct outgoing
  side (\<open>src/client_manager.rs\<close>, \<open>src/socks5/incoming.rs\<close>, \<open>src/outgoing.rs\<close>,
  \<open>src/connection.rs\<close> together): what the client is told, when an outgoing connection may be
  made, and what passes through it.
\<close>

definition serve ::
  "'s tcp \<Rightarrow> bool \<Rightarrow> 's copies \<Rightarrow> target_os \<Rightarrow> ('n, 's) network \<Rightarrow> outgoing_config \<Rightarrow>
   (('s socks5_connected, 's, 'n) task, error, unit) io" where
  "serve T debug_on copies os N cfg =
     handle_client (socks5_client T debug_on) T copies (process_request_impl os N) cfg"

lemma socks5_client_simps [simp]:
  "ic_next_request (socks5_client T d) = next_request T d"
  "ic_abort (socks5_client T d) = abort T"
  "ic_ready_for_connect (socks5_client T d) = ready_for_connect T"
  by (simp_all add: socks5_client_def)

context socks5_server
begin

lemma contract:
  "incoming_client_contract (socks5_client T debug_on) (seen_on sent) sent fits_reply [5, 0]
     (\<lambda>e r. reply_wire (get_reason e) r) (\<lambda>r. reply_wire S5Success r)"
  by (rule sc.incoming_client_contract_axioms)

end

lemma socks5_contract:
  "byte_stream T rcvd sent \<Longrightarrow>
   incoming_client_contract (socks5_client T debug_on) (seen_on sent) sent fits_reply [5, 0]
     (\<lambda>e r. reply_wire (get_reason e) r) (\<lambda>r. reply_wire S5Success r)"
  by (rule socks5_server.contract [OF socks5_server.intro])

text \<open>Stages of the task, with the calls they make evaluated.\<close>

lemma serve_no_request:
  assumes "next_request T d (client t) = (Inl e, c)"
  shows "serve T d copies os N cfg t =
    (case e of Panic \<Rightarrow> (Inl Panic, t\<lparr>client := c\<rparr>)
     | Raise x \<Rightarrow> (Inr (), t\<lparr>client := c, log := log t @ [HandleRequestError x]\<rparr>))"
  using assms
  by (auto simp: serve_def handle_client_def bindE_def attempt_def on_client_def log_error_def
      split: stop.split)

lemma serve_request:
  assumes "next_request T d (client t) = (Inr r, c)" and "out_type cfg = OutDirect"
  shows "serve T d copies os N cfg t =
    process_request (socks5_client T d) T copies (process_request_impl os N DirectOutgoing) r
      (t\<lparr>client := c\<rparr>)"
  using assms
  by (simp add: serve_def handle_client_def bindE_def attempt_def on_client_def get_outgoing_def)

lemma process_request_refused:
  assumes "og r (net t) = (Inl (Raise e), n)" and "ic_abort IC e r (client t) = (Inr (), c)"
  shows "process_request IC T copies og r t = (Inr (), t\<lparr>net := n, client := c\<rparr>)"
  using assms
  by (simp add: process_request_def abort_client_def bindE_def attempt_def on_client_def on_net_def)

lemma process_request_relays:
  assumes "og r (net t) = (Inr out, n)" and "ic_ready_for_connect IC r (client t) = (Inr inc, c)"
    and "bicopy T copies inc out = (b, i', o'')"
  shows "process_request IC T copies og r t =
    (Inr (), t\<lparr>net := n, client := c, relays := relays t @ [(i', o'')],
       log := log t @ (case b of Inl (Raise e) \<Rightarrow> [TransferError e] | _ \<Rightarrow> [])\<rparr>)"
proof -
  have "b \<noteq> Inl Panic" using bicopy_no_panic [of T copies inc out] assms(3) by simp
  then show ?thesis
    using assms
    by (cases b; (cases "projl b")?)
      (auto simp: process_request_def bindE_def attempt_def on_client_def on_net_def relay_def
        log_error_def)
qed

context scripted_stream
begin

lemma send_taken:
  assumes "stream c = Some s" and "fits_reply a"
  shows "\<exists>s'. send_final_response T e a c = (Inr (), c\<lparr>stream := Some s'\<rparr>) \<and>
    unread s' = unread s \<and> sent s' = sent s @ reply_wire e a \<and> rcvd s' = rcvd s"
  using write_taken [of "reply_wire e a" s] write_ok [of "reply_wire e a" s] assms
  by (auto simp: send_final_response_eq write_all_def)

lemma ready_taken:
  assumes "stream c = Some s" and "fits_reply a"
  shows "\<exists>s'. ready_for_connect T a c = (Inr s', c\<lparr>stream := None\<rparr>) \<and>
    unread s' = unread s \<and> sent s' = sent s @ reply_wire S5Success a \<and> rcvd s' = rcvd s"
  using send_taken [OF assms, of S5Success]
  by (auto simp: ready_for_connect_def take_stream_def)

end

section \<open>A task in memory\<close>

text \<open>
  The client of \<open>client_of\<close>, and a network that counts connection attempts: it resolves no
  name, refuses port 1 and accepts every other port with a peer that has sent 7, 8.
\<close>

definition task_of :: "u8 list \<Rightarrow> (mem_stream socks5_connected, mem_stream, nat) task" where
  "task_of bs = \<lparr>client = client_of bs, net = 0, log = [], relays = []\<rparr>"

definition small_net :: "(nat, mem_stream) network" where
  "small_net =
     \<lparr>resolve = \<lambda>_ _. Inr [],
      connect = \<lambda>a n. (if sa_port a = 1 then Inl (io_of_kind KConnectionRefused) else Inr (mem_of [7, 8]),
        Suc n)\<rparr>"

definition direct_cfg :: outgoing_config where
  "direct_cfg = \<lparr>out_type = OutDirect, user = None, out_listen_addr = None\<rparr>"

lemma task_of_simps [simp]:
  "client (task_of bs) = client_of bs" "net (task_of bs) = 0" "log (task_of bs) = []"
  "relays (task_of bs) = []" "out_type direct_cfg = OutDirect"
  by (simp_all add: task_of_def direct_cfg_def)

text \<open>A client that asks for \<open>[::1]\<close>, port \<open>p\<close>, and sends 1, 2 after its request.\<close>

definition ask6 :: "u16 \<Rightarrow> u8 list" where
  "ask6 p = greeting [0] @ request (IP (socket_addr (V6 (Ipv6 0 0 0 0 0 0 0 1)) p)) @ [1, 2]"

lemma ask6_request:
  "\<exists>c' s'. next_request mem_tcp d (client_of (ask6 p)) =
      (Inr (as_parsed (IP (socket_addr (V6 (Ipv6 0 0 0 0 0 0 0 1)) p))), c') \<and> stream c' = Some s' \<and>
    ms_in s' = [1, 2] \<and> ms_out s' = [5, 0]"
  using scripted_next_request [OF mem_scripted, of "client_of (ask6 p)" _ "[0]"
      "IP (socket_addr (V6 (Ipv6 0 0 0 0 0 0 0 1)) p)" "[1, 2]" d]
  by (simp add: ask6_def socks5_consts)

lemma ask6_parsed [simp]:
  "as_parsed (IP (socket_addr (V6 (Ipv6 0 0 0 0 0 0 0 1)) p)) =
     IP (socket_addr (V6 (Ipv6 0 0 0 0 0 0 0 1)) p)"
  by (simp add: socket_addr_def)

section \<open>Properties\<close>

text \<open>
  A refusal never carries the success code, so a client can tell the two answers apart by
  their second byte.
\<close>

lemma refusal_not_success: "S5Success < get_reason e"
  by (cases e) (simp_all add: get_reason_def less_socks5_error_def)

text \<open>
  C9. What one client sees, over any byte stream, with reads, writes, name resolution and
  connecting failing anywhere: once its request \<open>r\<close> has been taken, the task ends without a
  panic, and which way is decided by the outgoing side alone. If its type is not supported, or the
  connect for \<open>r\<close> failed, the client was sent the refusal with the code of that failure and nothing
  else (a part of it only if that was logged) and nothing was relayed. If the connect succeeded,
  either the success reply could not be completed, which was logged, and nothing was relayed; or
  the complete success reply was sent and then the relay ran, on that connection, and its error,
  if any, was logged. The network was used for that one connect and nothing else.
\<close>

theorem client_settled:
  assumes "byte_stream T rcvd sent" and "next_request T debug_on (client t) = (Inr r, c)"
    and "serve T debug_on copies os N cfg t = (res, t')"
  shows "res = Inr () \<and>
    ((\<exists>e v. (if out_type cfg = OutDirect
          then process_request_impl os N DirectOutgoing r (net t) = (Inl (Raise e), net t')
          else e = GeneralFailure (from_description ''Unsupported outgoing type'') \<and> net t' = net t) \<and>
        relays t' = relays t \<and> prefix v (reply_wire (get_reason e) r) \<and>
        seen_on sent (client t') = seen_on sent (client t) @ [5, 0] @ v \<and>
        (v = reply_wire (get_reason e) r \<and> log t' = log t \<or> (\<exists>x. log t' = log t @ [AbortError x]))) \<or>
     (\<exists>out. out_type cfg = OutDirect \<and>
        process_request_impl os N DirectOutgoing r (net t) = (Inr out, net t') \<and>
        ((\<exists>v x. relays t' = relays t \<and> prefix v (reply_wire S5Success r) \<and>
            seen_on sent (client t') = seen_on sent (client t) @ [5, 0] @ v \<and>
            log t' = log t @ [NotReadyError x]) \<or>
         (\<exists>inc i' o'' b. sent inc = seen_on sent (client t) @ [5, 0] @ reply_wire S5Success r \<and>
            bicopy T copies inc out = (b, i', o'') \<and> relays t' = relays t @ [(i', o'')] \<and>
            log t' = log t @ (case b of Inl (Raise x) \<Rightarrow> [TransferError x] | _ \<Rightarrow> [])))))"
proof -
  note C = socks5_contract [OF assms(1), of debug_on]
  have "ic_next_request (socks5_client T debug_on) (client t) = (Inr r, c)"
    using assms(2) by simp
  note ends = incoming_client_contract.handle_client_ends
    [OF C assms(3) [unfolded serve_def] this process_request_no_panic,
     unfolded incoming_client_contract.refused_with_def [OF C]
       incoming_client_contract.cut_short_def [OF C] incoming_client_contract.relayed_after_def [OF C]]
  show ?thesis
  proof (cases "out_type cfg = OutDirect")
    case False
    then have "get_outgoing cfg = Inl (Raise (from_description ''Unsupported outgoing type''))"
      by (simp add: get_outgoing_def split: outgoing_type.split)
    with ends False show ?thesis by auto
  next
    case True
    then have "get_outgoing cfg = Inr DirectOutgoing" by (simp add: get_outgoing_def)
    show ?thesis
    proof (cases "process_request_impl os N DirectOutgoing r (net t)")
      case (Pair a n)
      show ?thesis
      proof (cases a)
        case (Inl e)
        with ends True Pair \<open>get_outgoing cfg = _\<close> show ?thesis by (cases e) auto
      next
        case (Inr out)
        with ends Pair \<open>get_outgoing cfg = _\<close> True show ?thesis by simp blast
      qed
    qed
  qed
qed

theorem client_settled_witness:
  "\<exists>r c t'. next_request mem_tcp False (client_of (ask6 80)) = (Inr r, c) \<and>
    serve mem_tcp False mem_copies Linux small_net direct_cfg (task_of (ask6 80)) = (Inr (), t')"
proof -
  obtain r c where req: "next_request mem_tcp False (client (task_of (ask6 80))) = (Inr r, c)"
    using ask6_request [of False 80] by auto
  obtain res t' where
    run: "serve mem_tcp False mem_copies Linux small_net direct_cfg (task_of (ask6 80)) = (res, t')"
    by (cases "serve mem_tcp False mem_copies Linux small_net direct_cfg (task_of (ask6 80))") auto
  from client_settled [OF mem_bytes req run] req run show ?thesis by auto
qed

text \<open>
  No outgoing connection without a request: when the handshake fails, the task ends with
  the network untouched and nothing relayed, with the error logged, or panics where the
  handshake did.
\<close>

lemma no_connect_without_request:
  assumes "next_request T debug_on (client t) = (Inl e, c)"
    and "serve T debug_on copies os N cfg t = (res, t')"
  shows "net t' = net t \<and> relays t' = relays t \<and> client t' = c \<and>
    (case e of Panic \<Rightarrow> res = Inl Panic \<and> log t' = log t
     | Raise x \<Rightarrow> res = Inr () \<and> log t' = log t @ [HandleRequestError x])"
  using serve_no_request [where copies = copies and os = os and N = N and cfg = cfg, OF assms(1)]
    assms(2)
  by (auto split: stop.splits)

lemma tunnel_run:
  assumes "relay_stream T rcvd sent copies" and "scripted_stream T rcvd sent unread"
    and "stream (client t) = Some s" and "unread s = greeting ms @ request a @ rest"
    and "length ms \<le> 255" and "SOCKS5_NO_AUTH \<in> set ms" and "requestable a"
    and "out_type cfg = OutDirect"
    and "process_request_impl os N DirectOutgoing (as_parsed a) (net t) = (Inr out, n)"
  shows "\<exists>t' inc i' o'' b. serve T debug_on copies os N cfg t = (Inr (), t') \<and>
    unread inc = rest \<and> sent inc = sent s @ [5, 0] @ reply_wire S5Success (as_parsed a) \<and>
    relays t' = relays t @ [(i', o'')] \<and> net t' = n \<and> relayed rcvd sent inc out i' o'' \<and>
    bicopy T copies inc out = (b, i', o'') \<and> (log t' = log t \<longrightarrow> b = Inr ())"
proof -
  obtain c' s' where req: "next_request T debug_on (client t) = (Inr (as_parsed a), c')"
      "stream c' = Some s'" "unread s' = rest" "sent s' = sent s @ [5, 0]"
    using scripted_next_request [OF assms(2-7), of debug_on] by blast
  obtain inc where ready: "ready_for_connect T (as_parsed a) c' = (Inr inc, c'\<lparr>stream := None\<rparr>)"
      "unread inc = rest" "sent inc = sent s @ [5, 0] @ reply_wire S5Success (as_parsed a)"
    using scripted_stream.ready_taken [OF assms(2) req(2) fits_as_parsed [OF assms(7)]] req by auto
  obtain b i' o'' where run: "bicopy T copies inc out = (b, i', o'')"
    by (cases "bicopy T copies inc out") auto
  have "relayed rcvd sent inc out i' o''" "b \<noteq> Inl Panic"
    using relay_stream.bicopy_relays [OF assms(1) run] by simp_all
  then show ?thesis
    using serve_request [OF req(1) assms(8)]
      process_request_relays [where IC = "socks5_client T debug_on" and t = "t\<lparr>client := c'\<rparr>"
        and og = "process_request_impl os N DirectOutgoing", OF _ _ run] assms(9) ready run
    by (cases b; (cases "projl b")?) auto
qed

text \<open>
  C2. The tunnel, end to end: a client that offers "no authentication" and asks for an address
  the server can connect to is sent the method choice and the success reply for that address;
  then the relay runs between exactly what the client sent after its request and the new
  connection. Nothing the client sent early is lost, and nothing of the handshake leaks to the
  remote side.
\<close>

theorem tunnel_is_transparent:
  assumes "relay_stream T rcvd sent copies" and "scripted_stream T rcvd sent unread"
    and "stream (client t) = Some s" and "unread s = greeting ms @ request a @ rest"
    and "length ms \<le> 255" and "SOCKS5_NO_AUTH \<in> set ms" and "requestable a"
    and "out_type cfg = OutDirect"
    and "process_request_impl os N DirectOutgoing (as_parsed a) (net t) = (Inr out, n)"
  shows "\<exists>t' inc i' o''. serve T debug_on copies os N cfg t = (Inr (), t') \<and>
    unread inc = rest \<and> sent inc = sent s @ [5, 0] @ reply_wire S5Success (as_parsed a) \<and>
    relays t' = relays t @ [(i', o'')] \<and> net t' = n \<and> relayed rcvd sent inc out i' o'' \<and>
    (log t' = log t \<longrightarrow> relayed_all rcvd sent inc out i' o'')"
  using tunnel_run [OF assms, of debug_on] relay_stream.bicopy_complete [OF assms(1)] by metis

theorem tunnel_is_transparent_witness:
  "\<exists>t' inc i' o''. serve mem_tcp False mem_copies Linux small_net direct_cfg (task_of (ask6 80)) =
      (Inr (), t') \<and>
    ms_in inc = [1, 2] \<and> relays t' = [(i', o'')] \<and> net t' = 1 \<and>
    relayed ms_read ms_out inc (mem_of [7, 8]) i' o''"
  using tunnel_is_transparent [OF mem_relays mem_scripted, of "task_of (ask6 80)" _ "[0]"
      "IP (socket_addr (V6 (Ipv6 0 0 0 0 0 0 0 1)) 80)" "[1, 2]" direct_cfg Linux small_net
      "mem_of [7, 8]" 1 False]
  by (fastforce simp: ask6_def socks5_consts process_request_impl_def resolve_local_def
      small_net_def socket_addr_def)

text \<open>
  C21. A connect that fails is reported to the client as exactly one reply, for the address it
  asked for, whose code is the one of the failure; nothing is relayed.
\<close>

theorem connect_failure_reported:
  assumes "scripted_stream T rcvd sent unread"
    and "stream (client t) = Some s" and "unread s = greeting ms @ request a @ rest"
    and "length ms \<le> 255" and "SOCKS5_NO_AUTH \<in> set ms" and "requestable a"
    and "out_type cfg = OutDirect"
    and "process_request_impl os N DirectOutgoing (as_parsed a) (net t) = (Inl (Raise e), n)"
  shows "\<exists>t'. serve T debug_on copies os N cfg t = (Inr (), t') \<and>
    relays t' = relays t \<and> log t' = log t \<and> net t' = n \<and>
    seen_on sent (client t') = sent s @ [5, 0] @ reply_wire (get_reason e) (as_parsed a)"
proof -
  obtain c' s' where req: "next_request T debug_on (client t) = (Inr (as_parsed a), c')"
      "stream c' = Some s'" "unread s' = rest" "sent s' = sent s @ [5, 0]"
    using scripted_next_request [OF assms(1-6), of debug_on] by blast
  obtain s'' where "abort T e (as_parsed a) c' = (Inr (), c'\<lparr>stream := Some s''\<rparr>)"
      "sent s'' = sent s @ [5, 0] @ reply_wire (get_reason e) (as_parsed a)"
    using scripted_stream.send_taken [OF assms(1) req(2) fits_as_parsed [OF assms(6)]] req(4)
    by (auto simp: abort_def)
  then show ?thesis
    using serve_request [OF req(1) assms(7)] assms(8)
      process_request_refused [where IC = "socks5_client T debug_on" and t = "t\<lparr>client := c'\<rparr>"
        and og = "process_request_impl os N DirectOutgoing"]
    by auto
qed

theorem connect_failure_reported_witness:
  "\<exists>t'. serve mem_tcp False mem_copies Linux small_net direct_cfg (task_of (ask6 1)) =
      (Inr (), t') \<and> net t' = 1 \<and>
    seen_on ms_out (client t') = [5, 0, 5, 5, 0, 4, 0, 0, 0, 0, 0, 0, 0, 0, 0, 0, 0, 0, 0, 0, 0, 1, 0, 1]"
proof -
  have "\<exists>t'. serve mem_tcp False mem_copies Linux small_net direct_cfg (task_of (ask6 1)) =
      (Inr (), t') \<and> relays t' = [] \<and> log t' = [] \<and> net t' = 1 \<and>
    seen_on ms_out (client t') = [] @ [5, 0] @ reply_wire (get_reason (ConnectionRefused
        (Io (io_of_kind KConnectionRefused)))) (IP (socket_addr (V6 (Ipv6 0 0 0 0 0 0 0 1)) 1))"
    using connect_failure_reported [OF mem_scripted, of "task_of (ask6 1)" "mem_of (ask6 1)" "[0]"
        "IP (socket_addr (V6 (Ipv6 0 0 0 0 0 0 0 1)) 1)" "[1, 2]" direct_cfg Linux small_net
        "ConnectionRefused (Io (io_of_kind KConnectionRefused))" 1 False mem_copies]
    by (simp add: ask6_def socks5_consts process_request_impl_def resolve_local_def
        small_net_def socket_addr_def connect_error_def io_of_kind_def outgoing_ctor_defs)
  then show ?thesis
    by (auto simp: get_reason_def reply_wire_def wire_defs hi8_def lo8_def socks5_consts socket_addr_def)
qed

text \<open>
  An outgoing type that is not implemented is answered with "general failure", for every
  request, and the network is not touched.
\<close>

lemma unsupported_outgoing_reported:
  assumes "scripted_stream T rcvd sent unread"
    and "stream (client t) = Some s" and "unread s = greeting ms @ request a @ rest"
    and "length ms \<le> 255" and "SOCKS5_NO_AUTH \<in> set ms" and "requestable a"
    and "out_type cfg \<noteq> OutDirect"
  shows "\<exists>t'. serve T debug_on copies os N cfg t = (Inr (), t') \<and>
    relays t' = relays t \<and> log t' = log t \<and> net t' = net t \<and>
    seen_on sent (client t') = sent s @ [5, 0] @ reply_wire S5GeneralProxyFailure (as_parsed a)"
proof -
  let ?e = "GeneralFailure (from_description ''Unsupported outgoing type'')"
  obtain c' s' where req: "next_request T debug_on (client t) = (Inr (as_parsed a), c')"
      "stream c' = Some s'" "unread s' = rest" "sent s' = sent s @ [5, 0]"
    using scripted_next_request [OF assms(1-6), of debug_on] by blast
  obtain s'' where "abort T ?e (as_parsed a) c' = (Inr (), c'\<lparr>stream := Some s''\<rparr>)"
      "sent s'' = sent s @ [5, 0] @ reply_wire S5GeneralProxyFailure (as_parsed a)"
    using scripted_stream.send_taken [OF assms(1) req(2) fits_as_parsed [OF assms(6)]] req(4)
    by (auto simp: abort_def get_reason_def)
  then show ?thesis
    using req(1) assms(7)
    by (auto simp: serve_def handle_client_def abort_client_def bindE_def attempt_def on_client_def
        get_outgoing_def split: outgoing_type.split)
qed

text \<open>
  C27. The replies to connect errors on Linux. The table of error numbers in the code has two
  entries exchanged: 110 is \<open>ETIMEDOUT\<close> and is answered with code 4, "host unreachable", and
  113 is \<open>EHOSTUNREACH\<close> and is answered with code 6, "TTL expired". 101, \<open>ENETUNREACH\<close>, is
  answered with code 3, and every other number with code 1.
\<close>

theorem linux_connect_replies:
  assumes "io_raw e = Some n" and "io_kind e \<noteq> KConnectionRefused"
  shows "reply_code (get_reason (connect_error Linux e)) =
    (if n = 101 then 3 else if n = 110 then 4 else if n = 113 then 6 else 1)"
  using assms
  by (simp add: connect_error_def get_reason_def outgoing_ctor_defs)

theorem linux_connect_replies_witness:
  "reply_code (get_reason (connect_error Linux
     \<lparr>io_kind = KOther, io_raw = Some 113, io_text = ''No route to host''\<rparr>)) = 6"
  using linux_connect_replies [of "\<lparr>io_kind = KOther, io_raw = Some 113, io_text = ''No route to host''\<rparr>" 113]
  by simp

end
