(* ===== verification/Task_Steps.thy ===== *)
theory Task_Steps
  imports Tunnel
begin

text \<open>
  \<open>src/client_manager.rs\<close> once more, as the state machine the executor sees: \<open>handle_client\<close>
  gives up control at each of the calls it awaits, so a task is a phase, naming the call it
  waits for, and a step completes that call and runs to the next one. Between two steps of a
  task those of other tasks may run; only the connect, in phase \<open>Requested\<close>, touches the
  network they share.
\<close>

datatype 's phase =
    Start
  | Requested req_addr
  | Aborting "error outgoing_error" req_addr
  | Connected req_addr 's
  | Relaying 's 's
  | Done
  | Panicked

fun final :: "'s phase \<Rightarrow> bool" where
  "final Done = True"
| "final Panicked = True"
| "final _ = False"

definition finish :: "error stop \<Rightarrow> (error \<Rightarrow> log_line) \<Rightarrow> ('c, 's, 'n) task \<Rightarrow> 's phase \<times> ('c, 's, 'n) task" where
  "finish x line t =
     (case x of Panic \<Rightarrow> (Panicked, t) | Raise e \<Rightarrow> (Done, t\<lparr>log := log t @ [line e]\<rparr>))"

definition after_request ::
  "outgoing_config \<Rightarrow> (error, req_addr) res \<times> 'c \<Rightarrow> ('c, 's, 'n) task \<Rightarrow> 's phase \<times> ('c, 's, 'n) task" where
  "after_request cfg res t =
     (case res of
        (Inr r, c) \<Rightarrow>
          (case get_outgoing cfg of
             Inr _ \<Rightarrow> (Requested r, t\<lparr>client := c\<rparr>)
           | Inl (Raise e) \<Rightarrow> (Aborting (GeneralFailure e) r, t\<lparr>client := c\<rparr>)
           | Inl Panic \<Rightarrow> (Panicked, t\<lparr>client := c\<rparr>))
      | (Inl x, c) \<Rightarrow> finish x HandleRequestError (t\<lparr>client := c\<rparr>))"

definition after_relay ::
  "(error, unit) res \<times> 's \<times> 's \<Rightarrow> ('c, 's, 'n) task \<Rightarrow> 's phase \<times> ('c, 's, 'n) task" where
  "after_relay res t =
     (case res of (r, i', o'') \<Rightarrow>
        let t = t\<lparr>relays := relays t @ [(i', o'')]\<rparr> in
        (case r of Inr _ \<Rightarrow> (Done, t) | Inl x \<Rightarrow> finish x TransferError t))"

fun task_step ::
  "('c, 's) incoming_client \<Rightarrow> 's tcp \<Rightarrow> 's copies \<Rightarrow>
   (direct_outgoing \<Rightarrow> req_addr \<Rightarrow> ('n, error outgoing_error, 's) io) \<Rightarrow> outgoing_config \<Rightarrow>
   's phase \<times> ('c, 's, 'n) task \<Rightarrow> 's phase \<times> ('c, 's, 'n) task" where
  "task_step IC T copies process cfg (Start, t) =
     after_request cfg (ic_next_request IC (client t)) t"
| "task_step IC T copies process cfg (Requested r, t) =
     (case process DirectOutgoing r (net t) of
        (Inr out, n) \<Rightarrow> (Connected r out, t\<lparr>net := n\<rparr>)
      | (Inl (Raise e), n) \<Rightarrow> (Aborting e r, t\<lparr>net := n\<rparr>)
      | (Inl Panic, n) \<Rightarrow> (Panicked, t\<lparr>net := n\<rparr>))"
| "task_step IC T copies process cfg (Aborting e r, t) =
     (case ic_abort IC e r (client t) of
        (Inr _, c) \<Rightarrow> (Done, t\<lparr>client := c\<rparr>)
      | (Inl x, c) \<Rightarrow> finish x AbortError (t\<lparr>client := c\<rparr>))"
| "task_step IC T copies process cfg (Connected r out, t) =
     (case ic_ready_for_connect IC r (client t) of
        (Inr inc, c) \<Rightarrow> (Relaying inc out, t\<lparr>client := c\<rparr>)
      | (Inl x, c) \<Rightarrow> finish x NotReadyError (t\<lparr>client := c\<rparr>))"
| "task_step IC T copies process cfg (Relaying inc out, t) =
     after_relay (bicopy T copies inc out) t"
| "task_step IC T copies process cfg (Done, t) = (Done, t)"
| "task_step IC T copies process cfg (Panicked, t) = (Panicked, t)"

lemmas after_defs = finish_def after_request_def after_relay_def

section \<open>The steps and the handler\<close>

lemma final_stuck [simp]: "final (fst pt) \<Longrightarrow> task_step IC T copies process cfg pt = pt"
  by (cases pt rule: prod.exhaust, cases "fst pt") auto

text \<open>How many awaited calls are left at most.\<close>

fun calls_left :: "'s phase \<Rightarrow> nat" where
  "calls_left Start = 4"
| "calls_left (Requested _) = 3"
| "calls_left (Connected _ _) = 2"
| "calls_left (Aborting _ _) = 1"
| "calls_left (Relaying _ _) = 1"
| "calls_left _ = 0"

lemma calls_left_0 [simp]: "calls_left p = 0 \<longleftrightarrow> final p"
  by (cases p) auto

lemma step_calls_left:
  "\<not> final p \<Longrightarrow> calls_left (fst (task_step IC T copies process cfg (p, t))) < calls_left p"
  by (cases p) (auto simp: after_defs Let_def split: sum.split stop.split prod.split)

text \<open>What is left to do in a phase, as the handler does it.\<close>

fun rest_of ::
  "('c, 's) incoming_client \<Rightarrow> 's tcp \<Rightarrow> 's copies \<Rightarrow>
   (direct_outgoing \<Rightarrow> req_addr \<Rightarrow> ('n, error outgoing_error, 's) io) \<Rightarrow> outgoing_config \<Rightarrow>
   's phase \<Rightarrow> (('c, 's, 'n) task, error, unit) io" where
  "rest_of IC T copies process cfg Start = handle_client IC T copies process cfg"
| "rest_of IC T copies process cfg (Requested r) = process_request IC T copies (process DirectOutgoing) r"
| "rest_of IC T copies process cfg (Aborting e r) = abort_client IC e r"
| "rest_of IC T copies process cfg (Connected r out) =
     bindE (attempt (on_client (ic_ready_for_connect IC r))) (\<lambda>res.
     case res of
       Inr inc \<Rightarrow>
         bindE (attempt (relay T copies inc out)) (\<lambda>res.
         case res of
           Inl e \<Rightarrow> log_error (TransferError e)
         | Inr _ \<Rightarrow> ret ())
     | Inl e \<Rightarrow> log_error (NotReadyError e))"
| "rest_of IC T copies process cfg (Relaying inc out) =
     bindE (attempt (relay T copies inc out)) (\<lambda>res.
     case res of
       Inl e \<Rightarrow> log_error (TransferError e)
     | Inr _ \<Rightarrow> ret ())"
| "rest_of IC T copies process cfg Done = ret ()"
| "rest_of IC T copies process cfg Panicked = panic"

lemmas task_calls = bindE_def attempt_def on_client_def on_net_def relay_def log_error_def after_defs

lemma step_rest:
  "task_step IC T copies process cfg (p, t) = (p', t') \<Longrightarrow>
   rest_of IC T copies process cfg p t = rest_of IC T copies process cfg p' t'"
proof (cases p)
  case Start
  assume "task_step IC T copies process cfg (p, t) = (p', t')"
  with Start show ?thesis
    by (auto simp: handle_client_def task_calls get_outgoing_def lift_res_def split: sum.splits stop.splits prod.splits
        outgoing_type.splits)
next
  case (Requested r)
  assume "task_step IC T copies process cfg (p, t) = (p', t')"
  with Requested show ?thesis
    by (auto simp: process_request_def task_calls split: sum.splits stop.splits prod.splits)
qed (auto simp: abort_client_def task_calls Let_def split: sum.splits stop.splits prod.splits)

lemma steps_finish:
  "calls_left p \<le> k \<Longrightarrow>
   (case (task_step IC T copies process cfg ^^ k) (p, t) of
      (p', t') \<Rightarrow> final p' \<and> rest_of IC T copies process cfg p t = rest_of IC T copies process cfg p' t')"
proof (induction k arbitrary: p t)
  case 0
  then show ?case by simp
next
  case (Suc k)
  obtain p1 t1 where step: "task_step IC T copies process cfg (p, t) = (p1, t1)" by fastforce
  have "calls_left p1 \<le> k"
  proof (cases "final p")
    case True
    with step show ?thesis by (cases p) auto
  next
    case False
    with step_calls_left [OF False, of IC T copies process cfg t] step Suc.prems show ?thesis by simp
  qed
  from Suc.IH [OF this, of t1] step_rest [OF step] step show ?case
    by (simp add: funpow_swap1 split: prod.splits)
qed

text \<open>
  C12. The task is the handler: the state machine that stops at each awaited call does, in at
  most four steps from its start, exactly what \<open>handle_client\<close> does in one, panics included.
\<close>

theorem steps_refine_handler:
  "(task_step IC T copies process cfg ^^ 4) (Start, t) =
     (case handle_client IC T copies process cfg t of
        (Inr _, t') \<Rightarrow> (Done, t')
      | (Inl _, t') \<Rightarrow> (Panicked, t'))"
proof -
  obtain p' t' where run: "(task_step IC T copies process cfg ^^ 4) (Start, t) = (p', t')" by fastforce
  with steps_finish [of Start 4 IC T copies process cfg t]
  have "final p'" "handle_client IC T copies process cfg t = rest_of IC T copies process cfg p' t'"
    by simp_all
  with run show ?thesis by (cases p') auto
qed

section \<open>Many tasks\<close>

text \<open>
  The state of the running program: the listener while the accept loop runs, the network, the
  tasks it has spawned (each with its own client, log and relays), and, to speak of the past,
  the accepted clients in order. \<open>main\<close> returns when an accept fails; the runtime then drops
  every task, so that nothing runs any more.
\<close>

record ('c, 's) job =
  phase :: "'s phase"
  jclient :: 'c
  jlog :: "log_line list"
  jrelays :: "('s \<times> 's) list"

definition new_job :: "'c \<Rightarrow> ('c, 's) job" where
  "new_job c = \<lparr>phase = Start, jclient = c, jlog = [], jrelays = []\<rparr>"

definition job_task :: "('c, 's) job \<Rightarrow> 'n \<Rightarrow> ('c, 's, 'n) task" where
  "job_task j n = \<lparr>client = jclient j, net = n, log = jlog j, relays = jrelays j\<rparr>"

definition task_job :: "'s phase \<times> ('c, 's, 'n) task \<Rightarrow> ('c, 's) job" where
  "task_job pt = (case pt of (p, t) \<Rightarrow>
     \<lparr>phase = p, jclient = client t, jlog = log t, jrelays = relays t\<rparr>)"

record ('l, 'c, 's, 'n) program =
  running :: "'l option"
  shared :: 'n
  jobs :: "('c, 's) job list"
  arrived :: "'c list"

datatype event = Accept | Stop | Run nat

text \<open>\<open>next\<close> is the listener's \<open>next_client\<close>.\<close>

inductive program_step ::
  "('l, error, 'c) io \<Rightarrow>
   ('s phase \<times> ('c, 's, 'n) task \<Rightarrow> 's phase \<times> ('c, 's, 'n) task) \<Rightarrow>
   ('l, 'c, 's, 'n) program \<Rightarrow> event \<Rightarrow> ('l, 'c, 's, 'n) program \<Rightarrow> bool"
  for nxt step where
  accept: "running P = Some l \<Longrightarrow> nxt l = (Inr c, l') \<Longrightarrow>
    program_step nxt step P Accept
      (P\<lparr>running := Some l', jobs := jobs P @ [new_job c], arrived := arrived P @ [c]\<rparr>)"
| stop: "running P = Some l \<Longrightarrow> nxt l = (Inl e, l') \<Longrightarrow>
    program_step nxt step P Stop (P\<lparr>running := None\<rparr>)"
| run: "running P = Some l \<Longrightarrow> i < length (jobs P) \<Longrightarrow> \<not> final (phase (jobs P ! i)) \<Longrightarrow>
    step (phase (jobs P ! i), job_task (jobs P ! i) (shared P)) = (p, t) \<Longrightarrow>
    program_step nxt step P (Run i)
      (P\<lparr>shared := net t, jobs := (jobs P)[i := task_job (p, t)]\<rparr>)"

inductive_cases program_stepE [elim]: "program_step nxt step P a P'"

definition program_start :: "'l \<Rightarrow> 'n \<Rightarrow> ('l, 'c, 's, 'n) program" where
  "program_start l n = \<lparr>running = Some l, shared = n, jobs = [], arrived = []\<rparr>"

inductive run_of ::
  "('l, error, 'c) io \<Rightarrow>
   ('s phase \<times> ('c, 's, 'n) task \<Rightarrow> 's phase \<times> ('c, 's, 'n) task) \<Rightarrow>
   ('l, 'c, 's, 'n) program \<Rightarrow> event list \<Rightarrow> ('l, 'c, 's, 'n) program \<Rightarrow> bool"
  for nxt step P where
  none: "run_of nxt step P [] P"
| more: "run_of nxt step P as P' \<Longrightarrow> program_step nxt step P' a P'' \<Longrightarrow> run_of nxt step P (as @ [a]) P''"

section \<open>Bounded work\<close>

definition work_left :: "('l, 'c, 's, 'n) program \<Rightarrow> nat" where
  "work_left P = sum_list (map (\<lambda>j. calls_left (phase j)) (jobs P)) + (if running P = None then 0 else 1)"

lemma sum_list_update_less:
  "i < length xs \<Longrightarrow> f y < f (xs ! i) \<Longrightarrow>
   sum_list (map f (xs[i := y])) < (sum_list (map f xs) :: nat)"
proof (induction xs arbitrary: i)
  case (Cons x xs)
  then show ?case by (cases i) auto
qed simp

lemma program_work:
  "program_step nxt (task_step IC T copies process cfg) P a P' \<Longrightarrow>
   work_left P' + 1 + 5 * length (arrived P) \<le> work_left P + 5 * length (arrived P')"
proof (erule program_stepE, goal_cases accept stop run)
  case (run l i p t)
  let ?f = "\<lambda>j. calls_left (phase j)"
  have "?f (task_job (p, t)) < ?f (jobs P ! i)"
    using step_calls_left [OF run(5), of IC T copies process cfg "job_task (jobs P ! i) (shared P)"] run(6)
    by (simp add: task_job_def)
  from sum_list_update_less [where f = ?f, OF run(4) this] run(2) show ?case
    by (simp add: work_left_def)
qed (simp_all add: work_left_def new_job_def)

lemma run_work:
  "run_of nxt (task_step IC T copies process cfg) P as P' \<Longrightarrow>
   length as + work_left P' + 5 * length (arrived P) \<le> work_left P + 5 * length (arrived P')"
proof (induction rule: run_of.induct)
  case (more as P' a P'')
  from program_work [OF more.hyps(2)] more.IH show ?case by simp
qed simp

section \<open>Every task runs as if alone\<close>

text \<open>
  A task that has not reached its connect has not used the network, so it has come to where it
  is whatever the network was; one that is past it came there from the network it found.
\<close>

fun past_connect :: "'s phase \<Rightarrow> bool" where
  "past_connect Start = False"
| "past_connect (Requested _) = False"
| "past_connect _ = True"

definition alone ::
  "('s phase \<times> ('c, 's, 'n) task \<Rightarrow> 's phase \<times> ('c, 's, 'n) task) \<Rightarrow> 'c \<Rightarrow> ('c, 's) job \<Rightarrow> bool" where
  "alone step c j \<longleftrightarrow> (\<exists>k.
     (\<forall>n. (step ^^ k) (Start, job_task (new_job c) n) = (phase j, job_task j n)) \<or>
     past_connect (phase j) \<and>
       (\<exists>n n'. (step ^^ k) (Start, job_task (new_job c) n) = (phase j, job_task j n')))"

lemma alone_new: "alone step c (new_job c)"
  by (auto simp: alone_def new_job_def intro!: exI [of _ 0])

lemma job_task_job [simp]: "job_task (task_job (p, t)) n = t\<lparr>net := n\<rparr>" "phase (task_job pt) = fst pt"
  by (simp_all add: job_task_def task_job_def split: prod.split)

lemma step_net:
  assumes "\<not> (\<exists>r. p = Requested r)"
  shows "task_step IC T copies process cfg (p, t\<lparr>net := n\<rparr>) =
    (case task_step IC T copies process cfg (p, t) of (p', t') \<Rightarrow> (p', t'\<lparr>net := n\<rparr>))"
  using assms
  by (cases p) (auto simp: after_defs Let_def split: sum.split stop.split prod.split)

lemma step_past:
  "task_step IC T copies process cfg (p, t) = (p', t') \<Longrightarrow> p \<noteq> Start \<Longrightarrow> past_connect p'"
  by (cases p) (auto simp: after_defs Let_def split: sum.splits stop.splits prod.splits)

lemma step_alone:
  assumes "alone (task_step IC T copies process cfg) c j"
    and "task_step IC T copies process cfg (phase j, job_task j n) = (p, t)"
  shows "alone (task_step IC T copies process cfg) c (task_job (p, t))"
proof -
  let ?step = "task_step IC T copies process cfg"
  have net: "?step (phase j, job_task j m) = (p, t\<lparr>net := m\<rparr>)" if "\<not> (\<exists>r. phase j = Requested r)" for m
    using step_net [OF that, where t = "job_task j n" and n = m and IC = IC and T = T and copies = copies
        and process = process and cfg = cfg] assms(2)
    by (simp add: job_task_def)
  have past: "past_connect p" if "phase j \<noteq> Start"
    using step_past [OF assms(2) that] .
  from assms(1) obtain k where k:
    "(\<forall>m. (?step ^^ k) (Start, job_task (new_job c) m) = (phase j, job_task j m)) \<or>
     past_connect (phase j) \<and>
       (\<exists>m m'. (?step ^^ k) (Start, job_task (new_job c) m) = (phase j, job_task j m'))"
    unfolding alone_def by blast
  show ?thesis
  proof (cases "\<exists>r. phase j = Requested r")
    case True
    with k have "(?step ^^ Suc k) (Start, job_task (new_job c) n) = (p, t)"
      using assms(2) by auto
    then show ?thesis
      using past True unfolding alone_def
      by (intro exI [of _ "Suc k"] disjI2 conjI exI [of _ n] exI [of _ "net t"]) auto
  next
    case False
    from k show ?thesis
    proof (elim disjE conjE exE)
      assume "\<forall>m. (?step ^^ k) (Start, job_task (new_job c) m) = (phase j, job_task j m)"
      with net [OF False] show ?thesis
        unfolding alone_def by (intro exI [of _ "Suc k"]) simp
    next
      fix m m'
      assume "past_connect (phase j)"
        and k: "(?step ^^ k) (Start, job_task (new_job c) m) = (phase j, job_task j m')"
      then have "past_connect p" using past by fastforce
      then show ?thesis
        using net [OF False, of m'] k unfolding alone_def
        by (intro exI [of _ "Suc k"] disjI2 conjI exI [of _ m] exI [of _ m']) simp_all
    qed
  qed
qed

lemma rest_steps:
  "(task_step IC T copies process cfg ^^ k) (p, t) = (p', t') \<Longrightarrow>
   rest_of IC T copies process cfg p t = rest_of IC T copies process cfg p' t'"
proof (induction k arbitrary: p t)
  case (Suc k)
  obtain p1 t1 where "task_step IC T copies process cfg (p, t) = (p1, t1)" by fastforce
  with Suc step_rest [OF this] show ?case by (simp add: funpow_swap1)
qed simp

text \<open>An invariant of each task on its own, given the client it was made for.\<close>

lemma run_all_jobs:
  assumes "run_of nxt step (program_start l n) as P"
    and new: "\<And>c. Q c (new_job c)"
    and step: "\<And>c j n p t. Q c j \<Longrightarrow> \<not> final (phase j) \<Longrightarrow> step (phase j, job_task j n) = (p, t) \<Longrightarrow>
      Q c (task_job (p, t))"
  shows "list_all2 Q (arrived P) (jobs P)"
  using assms(1)
proof (induction rule: run_of.induct)
  case none
  then show ?case by (simp add: program_start_def)
next
  case (more as P a P')
  from more.hyps(2) show ?case
  proof (cases rule: program_step.cases)
    case (run l i p t)
    have "Q (arrived P ! i) (task_job (p, t))"
      using more.IH run step by (auto simp: list_all2_conv_all_nth)
    with more.IH run show ?thesis
      by (auto simp: list_all2_conv_all_nth nth_list_update)
  qed (use more.IH new in \<open>auto intro: list_all2_appendI\<close>)
qed

end
