(* ===== verification/Server.thy ===== *)
theory Server
  imports Config Socks5
begin

text \<open>
  The listening side: \<open>Socks5Incoming\<close> of \<open>src/socks5/incoming.rs\<close>, \<open>get_incoming\<close> of
  \<open>src/incoming.rs\<close> and \<open>main\<close> of \<open>src/main.rs\<close>. The listener of tokio is a pair of calls
  over a listener state; the file system and the TOML deserialiser are parameters of \<open>main\<close>.
  The accept loop may run forever: it is a partial function whose value is \<open>None\<close> then.
\<close>

record ('l, 's) listener_ops =
  tcp_bind :: "sock_addr \<Rightarrow> io_error + 'l"
  tcp_accept :: "'l \<Rightarrow> (io_error + 's \<times> sock_addr) \<times> 'l"

record 'l socks5_incoming =
  listen_addr :: sock_addr
  listener :: 'l

definition from_cfg ::
  "(rstring \<Rightarrow> io_error + sock_addr list) \<Rightarrow> ('l, 's) listener_ops \<Rightarrow> cfg_addr \<Rightarrow>
   (error, 'l socks5_incoming) res" where
  "from_cfg resolve L conf =
     bindR (into_addr resolve conf) (\<lambda>addr.
     bindR (io_q (tcp_bind L addr)) (\<lambda>l.
     Inr \<lparr>listen_addr = addr, listener = l\<rparr>))"

definition next_client ::
  "('l, 's) listener_ops \<Rightarrow> ('l socks5_incoming, error, 's socks5_connected) io" where
  "next_client L inc =
     (case tcp_accept L (listener inc) of
        (Inl e, l) \<Rightarrow> (Inl (Raise (Io e)), inc\<lparr>listener := l\<rparr>)
      | (Inr (s, incoming_addr), l) \<Rightarrow>
          (Inr \<lparr>local_addr = listen_addr inc, remote_addr = incoming_addr, stream = Some s\<rparr>,
           inc\<lparr>listener := l\<rparr>))"

definition get_incoming ::
  "(rstring \<Rightarrow> io_error + sock_addr list) \<Rightarrow> ('l, 's) listener_ops \<Rightarrow> incoming_config \<Rightarrow>
   (error, 'l socks5_incoming) res" where
  "get_incoming resolve L conf =
     (case in_type conf of
        InSocks5 \<Rightarrow> from_cfg resolve L (in_listen_addr conf)
      | _ \<Rightarrow> Inl (Raise (from_description ''Unsupported incoming type'')))"

text \<open>
  The loop: each accepted client is spawned with a copy of the outgoing configuration; the
  list collects what has been spawned, in order.
\<close>

partial_function (option) accept_loop ::
  "('l, 's) listener_ops \<Rightarrow> outgoing_config \<Rightarrow> 'l socks5_incoming \<Rightarrow>
   ('s socks5_connected \<times> outgoing_config) list \<Rightarrow>
   (('s socks5_connected \<times> outgoing_config) list \<times> 'l socks5_incoming) option" where
  "accept_loop L o_conf inc spawned =
     (case next_client L inc of
        (Inr c, inc') \<Rightarrow> accept_loop L o_conf inc' (spawned @ [(c, o_conf)])
      | (Inl _, inc') \<Rightarrow> Some (spawned, inc'))"

definition startup ::
  "(rstring \<Rightarrow> io_error + u8 list) \<Rightarrow> (u8 list \<Rightarrow> string + rocks_config) \<Rightarrow>
   (rstring \<Rightarrow> io_error + sock_addr list) \<Rightarrow> ('l, 's) listener_ops \<Rightarrow> rstring option \<Rightarrow>
   (error, 'l socks5_incoming \<times> rocks_config) res" where
  "startup read_file from_slice resolve L config_arg =
     (let conf = (case config_arg of Some f \<Rightarrow> f | None \<Rightarrow> bytes_of ''config.toml'') in
      bindR (io_q (read_file conf)) (\<lambda>r.
      bindR (case from_slice r of Inl e \<Rightarrow> Inl (Raise (Config e)) | Inr c \<Rightarrow> Inr c) (\<lambda>conf.
      bindR (get_incoming resolve L (incoming conf)) (\<lambda>inc.
      Inr (inc, conf)))))"

definition main ::
  "(rstring \<Rightarrow> io_error + u8 list) \<Rightarrow> (u8 list \<Rightarrow> string + rocks_config) \<Rightarrow>
   (rstring \<Rightarrow> io_error + sock_addr list) \<Rightarrow> ('l, 's) listener_ops \<Rightarrow> rstring option \<Rightarrow>
   ((error, unit) res \<times> ('s socks5_connected \<times> outgoing_config) list) option" where
  "main read_file from_slice resolve L config_arg =
     (case startup read_file from_slice resolve L config_arg of
        Inl e \<Rightarrow> Some (Inl e, [])
      | Inr (inc, conf) \<Rightarrow>
          (case accept_loop L (outgoing conf) inc [] of
             None \<Rightarrow> None
           | Some (spawned, _) \<Rightarrow> Some (Inr (), spawned)))"

section \<open>Runs of the accept loop\<close>

text \<open>A run of successful accepts, as a step relation of the listener.\<close>

inductive accepted ::
  "('l, 's) listener_ops \<Rightarrow> 'l socks5_incoming \<Rightarrow> 's socks5_connected list \<Rightarrow> 'l socks5_incoming \<Rightarrow> bool"
  for L where
  none: "accepted L inc [] inc"
| one: "next_client L inc = (Inr c, inc') \<Longrightarrow> accepted L inc' cs inc'' \<Longrightarrow> accepted L inc (c # cs) inc''"

inductive_cases accepted_NilE [elim!]: "accepted L inc [] inc'"
inductive_cases accepted_ConsE [elim!]: "accepted L inc (c # cs) inc'"

lemma accepted_snoc:
  "accepted L inc cs inc' \<Longrightarrow> next_client L inc' = (Inr c, inc'') \<Longrightarrow> accepted L inc (cs @ [c]) inc''"
  by (induction rule: accepted.induct) (auto intro: accepted.intros)

lemma accept_loop_run:
  assumes "accepted L inc cs inc'" and "next_client L inc' = (Inl e, inc'')"
  shows "accept_loop L cfg inc spawned = Some (spawned @ map (\<lambda>c. (c, cfg)) cs, inc'')"
  using assms
proof (induction arbitrary: spawned rule: accepted.induct)
  case (none inc)
  then show ?case by (subst accept_loop.simps) simp
next
  case (one inc c inc' cs inc3)
  then show ?case by (subst accept_loop.simps) simp
qed

lemma accept_loop_returns:
  assumes ret: "accept_loop L cfg inc spawned = Some (out, fin)"
  shows "\<exists>cs inc' e. out = spawned @ map (\<lambda>c. (c, cfg)) cs \<and> accepted L inc cs inc' \<and>
    next_client L inc' = (Inl e, fin)"
proof -
  let ?P = "\<lambda>K cf inc spawned res. K = L \<longrightarrow> (\<exists>cs inc' e. fst res = spawned @ map (\<lambda>c. (c, cf)) cs \<and>
      accepted L inc cs inc' \<and> next_client L inc' = (Inl e, snd res))"
  have "?P L cfg inc spawned (out, fin)"
  proof (rule accept_loop.raw_induct [where P = ?P, OF _ ret])
    fix f K cf inc spawned res
    assume IH: "\<And>K cf inc spawned res. f K cf inc spawned = Some res \<Longrightarrow> ?P K cf inc spawned res"
      and eq: "(case next_client K inc of
          (Inl _, inc') \<Rightarrow> Some (spawned, inc')
        | (Inr c, inc') \<Rightarrow> f K cf inc' (spawned @ [(c, cf)])) = Some res"
    show "?P K cf inc spawned res"
    proof
      assume K: "K = L"
      show "\<exists>cs inc' e. fst res = spawned @ map (\<lambda>c. (c, cf)) cs \<and> accepted L inc cs inc' \<and>
        next_client L inc' = (Inl e, snd res)"
      proof (cases "next_client L inc")
        case (Pair r inc1)
        show ?thesis
        proof (cases r)
          case (Inl e)
          with eq K Pair show ?thesis by (auto intro!: exI [of _ "[]"] accepted.none)
        next
          case (Inr c)
          with eq K Pair have "f K cf inc1 (spawned @ [(c, cf)]) = Some res" by simp
          from IH [OF this] K obtain cs inc' e where
            "fst res = spawned @ map (\<lambda>c. (c, cf)) (c # cs)" "accepted L inc1 cs inc'"
            "next_client L inc' = (Inl e, snd res)" by auto
          with Pair Inr show ?thesis by (blast intro: accepted.one)
        qed
      qed
    qed
  qed
  then show ?thesis by simp
qed

lemma next_client_frame:
  "next_client L inc = (r, inc') \<Longrightarrow> listen_addr inc' = listen_addr inc"
  by (auto simp: next_client_def split: prod.splits sum.splits)

lemma next_client_fresh:
  "next_client L inc = (Inr c, inc') \<Longrightarrow> local_addr c = listen_addr inc \<and> stream c \<noteq> None"
  by (auto simp: next_client_def split: prod.splits sum.splits)

lemma accepted_fresh:
  "accepted L inc cs inc' \<Longrightarrow> list_all (\<lambda>c. local_addr c = listen_addr inc \<and> stream c \<noteq> None) cs"
  by (induction rule: accepted.induct) (auto dest: next_client_frame next_client_fresh)

text \<open>A listener in memory: a list of accept results, and then an error for ever.\<close>

definition list_listener :: "((io_error + 's \<times> sock_addr) list, 's) listener_ops" where
  "list_listener =
     \<lparr>tcp_bind = (\<lambda>_. Inr []),
      tcp_accept = (\<lambda>l. case l of [] \<Rightarrow> (Inl (io_of_kind KOther), []) | r # l' \<Rightarrow> (r, l'))\<rparr>"

section \<open>Properties\<close>

text \<open>
  C13. The accept loop, completely: it returns exactly when some accept fails, and then it has
  spawned every client accepted before that failure, once, in the order of arrival and with
  the configured outgoing side. In particular it runs forever while accepts succeed.
\<close>

theorem accept_loop_exact:
  "accept_loop L cfg inc [] = Some (spawned, fin) \<longleftrightarrow>
     (\<exists>cs inc' e. accepted L inc cs inc' \<and> next_client L inc' = (Inl e, fin) \<and>
        spawned = map (\<lambda>c. (c, cfg)) cs)"
  using accept_loop_returns [of L cfg inc "[]" spawned fin] accept_loop_run [where spawned = "[]"]
  by fastforce

text \<open>
  One failed accept ends the server, whatever the error: \<open>main\<close> returns \<open>Ok(())\<close> after
  the clients accepted so far, and no later client is ever accepted.
\<close>

lemma main_stops_at_accept_error:
  assumes "startup read_file from_slice resolve L arg = Inr (inc, conf)"
    and "accepted L inc cs inc'" and "next_client L inc' = (Inl e, inc'')"
  shows "main read_file from_slice resolve L arg =
    Some (Inr (), map (\<lambda>c. (c, outgoing conf)) cs)"
  using assms accept_loop_run [OF assms(2,3)] by (simp add: main_def)

text \<open>
  A server whose start-up fails reports that error and has accepted nobody.
\<close>

lemma main_startup_errors:
  "main read_file from_slice resolve L arg = Some (Inl e, spawned) \<longleftrightarrow>
     startup read_file from_slice resolve L arg = Inl e \<and> spawned = []"
  by (auto simp: main_def split: sum.splits option.splits)

text \<open>
  Every client the server spawns has an open stream and carries the address the server listens
  on.
\<close>

lemma spawned_clients_fresh:
  assumes "accept_loop L cfg inc [] = Some (spawned, fin)"
  shows "list_all (\<lambda>(c, o_conf). local_addr c = listen_addr inc \<and> stream c \<noteq> None \<and> o_conf = cfg) spawned"
  using accept_loop_returns [OF assms] by (auto dest!: accepted_fresh simp: list_all_iff)

text \<open>
  The user file and the key files of a configuration are read by nobody: a server configured
  with them listens like one without, unauthenticated and unencrypted.
\<close>

lemma credentials_ignored:
  "get_incoming resolve L (conf\<lparr>userfile := u, ssl := k\<rparr>) = get_incoming resolve L conf"
  by (cases conf) (simp add: get_incoming_def cong: incoming_type.case_cong)

end
