(* ===== verification/Program.thy ===== *)
theory Program
  imports Task_Steps Server
begin

text \<open>
  The running program: the accept loop of \<open>src/main.rs\<close> and the tasks it spawns, their steps in
  any order (\<open>Task_Steps\<close>), for the SOCKS5 listener and the direct outgoing side. What is shown
  here holds in every run of the program, whatever the interleaving and whatever fails.
\<close>

abbreviation serve_step ::
  "'s tcp \<Rightarrow> bool \<Rightarrow> 's copies \<Rightarrow> target_os \<Rightarrow> ('n, 's) network \<Rightarrow> outgoing_config \<Rightarrow>
   's phase \<times> ('s socks5_connected, 's, 'n) task \<Rightarrow> 's phase \<times> ('s socks5_connected, 's, 'n) task" where
  "serve_step T d copies os N cfg \<equiv> task_step (socks5_client T d) T copies (process_request_impl os N) cfg"

definition program_run ::
  "('l, 's) listener_ops \<Rightarrow> 's tcp \<Rightarrow> bool \<Rightarrow> 's copies \<Rightarrow> target_os \<Rightarrow> ('n, 's) network \<Rightarrow> outgoing_config \<Rightarrow>
   'l socks5_incoming \<Rightarrow> 'n \<Rightarrow> event list \<Rightarrow>
   ('l socks5_incoming, 's socks5_connected, 's, 'n) program \<Rightarrow> bool" where
  "program_run L T d copies os N cfg l n as P \<longleftrightarrow>
     run_of (next_client L) (serve_step T d copies os N cfg) (program_start l n) as P"

section \<open>What every run preserves\<close>

text \<open>
  How far a client has come when its task is in a phase: \<open>sent_c\<close> is what it has been sent,
  \<open>sent_s\<close> the same for a stream that has been given to the relay.
\<close>

fun phase_ok ::
  "('c \<Rightarrow> u8 list) \<Rightarrow> ('s \<Rightarrow> u8 list) \<Rightarrow> (req_addr \<Rightarrow> bool) \<Rightarrow> u8 list \<Rightarrow> (req_addr \<Rightarrow> u8 list) \<Rightarrow>
   'c \<Rightarrow> 's phase \<Rightarrow> 'c \<Rightarrow> bool" where
  "phase_ok sent_c sent_s answerable hello acceptance c0 Start c \<longleftrightarrow> c = c0"
| "phase_ok sent_c sent_s answerable hello acceptance c0 (Requested r) c \<longleftrightarrow>
     answerable r \<and> sent_c c = sent_c c0 @ hello"
| "phase_ok sent_c sent_s answerable hello acceptance c0 (Aborting e r) c \<longleftrightarrow>
     answerable r \<and> sent_c c = sent_c c0 @ hello"
| "phase_ok sent_c sent_s answerable hello acceptance c0 (Connected r out) c \<longleftrightarrow>
     answerable r \<and> sent_c c = sent_c c0 @ hello"
| "phase_ok sent_c sent_s answerable hello acceptance c0 (Relaying inc out) c \<longleftrightarrow>
     (\<exists>r. answerable r \<and> sent_s inc = sent_c c0 @ hello @ acceptance r)"
| "phase_ok sent_c sent_s answerable hello acceptance c0 _ c \<longleftrightarrow> True"

text \<open>What a task has relayed: nothing, or once, on a stream that was answered before.\<close>

definition relays_ok ::
  "'s tcp \<Rightarrow> 's copies \<Rightarrow> ('c \<Rightarrow> u8 list) \<Rightarrow> ('s \<Rightarrow> u8 list) \<Rightarrow> u8 list \<Rightarrow> (req_addr \<Rightarrow> u8 list) \<Rightarrow>
   'c \<Rightarrow> 's phase \<Rightarrow> ('s \<times> 's) list \<Rightarrow> bool" where
  "relays_ok T copies sent_c sent_s hello acceptance c0 p rs \<longleftrightarrow>
     rs = [] \<or>
     final p \<and> (\<exists>r inc out b i' o''. sent_s inc = sent_c c0 @ hello @ acceptance r \<and>
       bicopy T copies inc out = (b, i', o'') \<and> rs = [(i', o'')])"

context incoming_client_contract
begin

lemma step_ok:
  assumes "phase_ok written handed answerable hello acceptance c0 p (client t)"
    and "relays_ok T copies written handed hello acceptance c0 p (relays t)"
    and "\<not> final p" and "task_step IC T copies process cfg (p, t) = (p', t')"
  shows "phase_ok written handed answerable hello acceptance c0 p' (client t') \<and>
    relays_ok T copies written handed hello acceptance c0 p' (relays t')"
proof (cases p)
  case Start
  with assms next_ok [of "client t"] show ?thesis
    by (auto simp: relays_ok_def after_defs split: sum.splits stop.splits prod.splits)
next
  case (Relaying inc out)
  with assms show ?thesis
    by (fastforce simp: relays_ok_def after_defs Let_def split: sum.splits stop.splits prod.splits)
next
  case (Connected r out)
  with assms ready_ok [of r "client t"] show ?thesis
    by (auto simp: relays_ok_def after_defs split: sum.splits stop.splits prod.splits)
qed (use assms in \<open>auto simp: relays_ok_def after_defs split: sum.splits stop.splits prod.splits\<close>)

end

text \<open>The same for a SOCKS5 client that is given no bytes to start with.\<close>

definition told :: "('s \<Rightarrow> u8 list) \<Rightarrow> 's socks5_connected \<Rightarrow> ('s socks5_connected, 's) job \<Rightarrow> bool" where
  "told sent c0 j \<longleftrightarrow>
     phase_ok (seen_on sent) sent fits_reply [SOCKS5_PROTOCOL, SOCKS5_NO_AUTH] (reply_wire S5Success)
       c0 (phase j) (jclient j)"

definition relayed_once ::
  "'s tcp \<Rightarrow> 's copies \<Rightarrow> ('s \<Rightarrow> u8 list) \<Rightarrow> 's socks5_connected \<Rightarrow> ('s socks5_connected, 's) job \<Rightarrow> bool" where
  "relayed_once T copies sent c0 j \<longleftrightarrow>
     relays_ok T copies (seen_on sent) sent [SOCKS5_PROTOCOL, SOCKS5_NO_AUTH] (reply_wire S5Success)
       c0 (phase j) (jrelays j)"

lemma program_told:
  assumes "byte_stream T rcvd sent" and "program_run L T d copies os N cfg l n as P"
  shows "list_all2 (\<lambda>c j. told sent c j \<and> relayed_once T copies sent c j) (arrived P) (jobs P)"
proof (rule run_all_jobs [OF assms(2) [unfolded program_run_def]])
  show "told sent c (new_job c) \<and> relayed_once T copies sent c (new_job c)" for c
    by (simp add: told_def relayed_once_def relays_ok_def new_job_def)
next
  fix c j n p t
  assume "told sent c j \<and> relayed_once T copies sent c j" and "\<not> final (phase j)"
    and "serve_step T d copies os N cfg (phase j, job_task j n) = (p, t)"
  then show "told sent c (task_job (p, t)) \<and> relayed_once T copies sent c (task_job (p, t))"
    using incoming_client_contract.step_ok [OF socks5_contract [OF assms(1), of d],
        where p = "phase j" and t = "job_task j n" and p' = p and t' = t]
    by (simp add: told_def relayed_once_def job_task_def task_job_def socks5_consts) blast
qed

lemma program_alone:
  assumes "program_run L T d copies os N cfg l n as P"
  shows "list_all2 (alone (serve_step T d copies os N cfg)) (arrived P) (jobs P)"
  by (rule run_all_jobs [OF assms [unfolded program_run_def] alone_new step_alone])

lemma program_accepted:
  assumes "program_run L T d copies os N cfg l n as P"
  shows "case running P of
      Some l' \<Rightarrow> accepted L l (arrived P) l'
    | None \<Rightarrow> \<exists>l' e l''. accepted L l (arrived P) l' \<and> next_client L l' = (Inl e, l'')"
  using assms unfolding program_run_def
proof (induction rule: run_of.induct)
  case none
  then show ?case by (simp add: program_start_def accepted.none)
next
  case (more as P a P')
  from more.hyps(2) more.IH show ?case
    by (cases rule: program_step.cases) (auto intro: accepted_snoc)
qed

lemma alone_serves:
  assumes "alone (serve_step T d copies os N cfg) c j" and "final (phase j)"
  shows "\<exists>m m'. serve T d copies os N cfg (job_task (new_job c) m) =
    (case phase j of Panicked \<Rightarrow> Inl Panic | _ \<Rightarrow> Inr (), job_task j m')"
proof -
  from assms(1) obtain k m m' where
    "(serve_step T d copies os N cfg ^^ k) (Start, job_task (new_job c) m) = (phase j, job_task j m')"
    unfolding alone_def by blast
  from rest_steps [OF this] assms(2) show ?thesis
    by (cases "phase j") (fastforce simp: serve_def)+
qed

section \<open>A program in memory\<close>

text \<open>A listener that delivers one client, which closes its stream at once, and then fails.\<close>

definition one_client :: "(io_error + mem_stream \<times> sock_addr) list socks5_incoming" where
  "one_client = \<lparr>listen_addr = socket_addr (V4 (Ipv4 127 0 0 1)) 1080,
     listener = [Inr (mem_of [], socket_addr (V4 (Ipv4 127 0 0 1)) 50000)]\<rparr>"

definition mem_run ::
  "event list \<Rightarrow> ((io_error + mem_stream \<times> sock_addr) list socks5_incoming,
     mem_stream socks5_connected, mem_stream, nat) program \<Rightarrow> bool" where
  "mem_run = program_run list_listener mem_tcp False mem_copies Linux small_net direct_cfg one_client 0"

definition eof_error :: error where
  "eof_error = Io (io_of_kind KUnexpectedEof)"

lemma one_client_accept:
  "next_client list_listener one_client = (Inr (client_of []), one_client\<lparr>listener := []\<rparr>)"
  by (simp add: next_client_def list_listener_def one_client_def client_of_def)

lemma one_client_stop:
  "next_client list_listener (one_client\<lparr>listener := []\<rparr>) =
     (Inl (Raise (Io (io_of_kind KOther))), one_client\<lparr>listener := []\<rparr>)"
  by (simp add: next_client_def list_listener_def)

lemma empty_client: "next_request mem_tcp False (client_of []) = (Inl (Raise eof_error), client_of [])"
  by (simp add: next_request_def authenticate_client_def read_into_def bindE_def read_exact_def
      mem_read_def eof_error_def client_of_def)

definition after_accept ::
  "((io_error + mem_stream \<times> sock_addr) list socks5_incoming,
     mem_stream socks5_connected, mem_stream, nat) program" where
  "after_accept = \<lparr>running = Some (one_client\<lparr>listener := []\<rparr>), shared = 0 :: nat,
     jobs = [new_job (client_of [])], arrived = [client_of []]\<rparr>"

definition after_run ::
  "((io_error + mem_stream \<times> sock_addr) list socks5_incoming,
     mem_stream socks5_connected, mem_stream, nat) program" where
  "after_run = \<lparr>running = Some (one_client\<lparr>listener := []\<rparr>), shared = 0 :: nat,
     jobs = [(new_job (client_of []))\<lparr>phase := Done, jlog := [HandleRequestError eof_error]\<rparr>],
     arrived = [client_of []]\<rparr>"

lemma mem_run_accept: "mem_run [Accept] after_accept"
  unfolding mem_run_def program_run_def
  using run_of.more [OF run_of.none program_step.accept
      [where P = "program_start one_client 0" and nxt = "next_client list_listener", OF _ one_client_accept]]
  by (force simp: program_start_def after_accept_def)

lemma accept_and_step:
  fixes l :: "'l socks5_incoming" and n :: 'n and c :: "'s socks5_connected"
  assumes "next_client L l = (Inr c, l')"
    and "serve_step T d copies os N cfg (Start, job_task (new_job c) n) = (p, t)"
  shows "program_run L T d copies os N cfg l n [Accept, Run 0]
    \<lparr>running = Some l', shared = net t, jobs = [task_job (p, t)], arrived = [c]\<rparr>"
proof -
  let ?step = "serve_step T d copies os N cfg"
  let ?P1 = "\<lparr>running = Some l', shared = n, jobs = [new_job c], arrived = [c]\<rparr>"
  let ?P2 = "\<lparr>running = Some l', shared = net t, jobs = [task_job (p, t)], arrived = [c]\<rparr>"
  have "program_step (next_client L) ?step (program_start l n) Accept ?P1"
    using program_step.accept [where P = "program_start l n" and nxt = "next_client L" and step = ?step,
        OF _ assms(1)]
    by (simp add: program_start_def)
  moreover have "program_step (next_client L) ?step ?P1 (Run 0) ?P2"
    using program_step.run [where P = ?P1 and i = 0 and nxt = "next_client L" and step = ?step and p = p and t = t]
      assms(2)
    by (simp add: new_job_def)
  ultimately show ?thesis
    using run_of.more [OF run_of.more [OF run_of.none]] unfolding program_run_def by fastforce
qed

lemma mem_run_done: "mem_run [Accept, Run 0] after_run"
proof -
  have "serve_step mem_tcp False mem_copies Linux small_net direct_cfg
      (Start, job_task (new_job (client_of [])) 0) =
      (Done, \<lparr>client = client_of [], net = 0, log = [HandleRequestError eof_error], relays = []\<rparr>)"
    by (simp add: new_job_def job_task_def empty_client after_defs)
  from accept_and_step [OF one_client_accept this] show ?thesis
    by (simp add: mem_run_def after_run_def task_job_def new_job_def)
qed

definition after_stop ::
  "((io_error + mem_stream \<times> sock_addr) list socks5_incoming,
     mem_stream socks5_connected, mem_stream, nat) program" where
  "after_stop = after_accept\<lparr>running := None\<rparr>"

lemma mem_run_stop: "mem_run [Accept, Stop] after_stop"
proof -
  have "program_step (next_client list_listener)
      (serve_step mem_tcp False mem_copies Linux small_net direct_cfg) after_accept Stop after_stop"
    unfolding after_stop_def
    by (rule program_step.stop [where nxt = "next_client list_listener", OF _ one_client_stop])
      (simp add: after_accept_def)
  from run_of.more [OF mem_run_accept [unfolded mem_run_def program_run_def] this]
  show ?thesis by (simp add: mem_run_def program_run_def)
qed

section \<open>The types of what the tasks hold\<close>

text \<open>
  A \<open>DomainName\<close> holds a Rust \<open>String\<close>: valid UTF-8, and here of at most 253 bytes, so that
  every reply to it fits its buffer.
\<close>

fun well_typed :: "req_addr \<Rightarrow> bool" where
  "well_typed (IP _) \<longleftrightarrow> True"
| "well_typed (DomainName d _) \<longleftrightarrow> utf8_valid d \<and> length d \<le> 253"

fun phase_typed :: "'s phase \<Rightarrow> bool" where
  "phase_typed (Requested r) \<longleftrightarrow> well_typed r"
| "phase_typed (Aborting _ r) \<longleftrightarrow> well_typed r"
| "phase_typed (Connected r _) \<longleftrightarrow> well_typed r"
| "phase_typed _ \<longleftrightarrow> True"

lemma request_typed:
  assumes "byte_stream T rcvd sent" and "next_request T d c = (Inr r, c')"
  shows "well_typed r"
  using byte_stream.next_request_ok [OF assms] by (cases r) (auto simp: accepts_def)

lemma step_typed:
  assumes "byte_stream T rcvd sent" and "phase_typed p"
    and "serve_step T d copies os N cfg (p, t) = (p', t')"
  shows "phase_typed p'"
  using assms(2,3) request_typed [OF assms(1), of d "client t"]
  by (cases p)
    (auto simp: after_defs Let_def split: sum.splits stop.splits prod.splits)

section \<open>Properties\<close>

text \<open>
  Every interleaving is serialisable: in any run of the program, a task that has ended
  has done exactly what \<open>handle_client\<close> does for its client alone, from the network as it
  found it when it connected, whatever the other tasks did in between.
\<close>

lemma tasks_run_as_if_alone:
  assumes "program_run L T d copies os N cfg l n as P"
    and "i < length (jobs P)" and "final (phase (jobs P ! i))"
  shows "\<exists>m m'. serve T d copies os N cfg (job_task (new_job (arrived P ! i)) m) =
    (case phase (jobs P ! i) of Panicked \<Rightarrow> Inl Panic | _ \<Rightarrow> Inr (), job_task (jobs P ! i) m')"
  by (rule alone_serves)
    (use program_alone [OF assms(1)] assms(2,3) in \<open>auto simp: list_all2_conv_all_nth\<close>)

text \<open>
  The reply comes before the relay, at every moment of every run: while a task connects its
  client has been sent the method choice and nothing else, while it relays the stream had been
  sent the complete success reply before, and it relays at most once. This holds over any byte
  stream, for every interleaving of the tasks.
\<close>

lemma reply_precedes_relay:
  assumes "byte_stream T rcvd sent" and "program_run L T d copies os N cfg l n as P"
  shows "list_all2 (\<lambda>c j. told sent c j \<and> relayed_once T copies sent c j) (arrived P) (jobs P)"
  by (rule program_told [OF assms])

text \<open>
  The work of the program is bounded by its clients: a run that has accepted \<open>n\<close> clients has
  taken at most \<open>5 * n + 1\<close> steps, one to accept and four to serve each, and one to stop. No
  task can keep the executor busy.
\<close>

lemma steps_bounded_by_clients:
  assumes "program_run L T d copies os N cfg l n as P"
  shows "length as \<le> 5 * length (arrived P) + 1"
  using run_work [OF assms [unfolded program_run_def]]
  by (simp add: work_left_def program_start_def)

text \<open>
  The tasks do not disturb the accept loop: when a run of the program has stopped, the
  clients it has spawned are those of the accept loop on its own, in the same order.
\<close>

lemma interleaving_keeps_accepts:
  assumes "program_run L T d copies os N cfg l n as P" and "running P = None"
  shows "\<exists>fin. accept_loop L cfg l [] = Some (map (\<lambda>c. (c, cfg)) (arrived P), fin)"
  using program_accepted [OF assms(1)] assms(2) accept_loop_run [where spawned = "[]"] by fastforce

text \<open>
  A failed accept drops the clients being served: from any moment of any run at which an
  accept fails, the program stops with every unfinished task as it is, and none of them takes
  another step: \<open>main\<close> returns and the runtime drops its tasks.
\<close>

lemma failed_accept_drops_tasks:
  assumes "program_run L T d copies os N cfg l n as P"
    and "running P = Some l1" and "next_client L l1 = (Inl e, l2)"
  shows "\<exists>P'. program_run L T d copies os N cfg l n (as @ [Stop]) P' \<and> jobs P' = jobs P \<and>
    \<not> (\<exists>a P''. program_step (next_client L) (serve_step T d copies os N cfg) P' a P'')"
proof -
  have "program_step (next_client L) (serve_step T d copies os N cfg) P Stop (P\<lparr>running := None\<rparr>)"
    by (rule program_step.stop) (rule assms)+
  with assms(1) have "program_run L T d copies os N cfg l n (as @ [Stop]) (P\<lparr>running := None\<rparr>)"
    unfolding program_run_def by (rule run_of.more)
  then show ?thesis
    by (intro exI [of _ "P\<lparr>running := None\<rparr>"]) auto
qed

text \<open>
  C11. Type soundness of the running program: at every moment of every run, over any byte stream,
  each address a task works with is a value of its Rust type, a domain name being valid UTF-8,
  and no name is longer than the 253 bytes the request buffer has room for.
\<close>

theorem addresses_well_typed:
  assumes "byte_stream T rcvd sent" and "program_run L T d copies os N cfg l n as P"
  shows "list_all (\<lambda>j. phase_typed (phase j)) (jobs P)"
proof -
  have "list_all2 (\<lambda>_ j. phase_typed (phase j)) (arrived P) (jobs P)"
  proof (rule run_all_jobs [OF assms(2) [unfolded program_run_def]])
    show "phase_typed (phase (new_job c :: ('s socks5_connected, 's) job))" for c :: "'s socks5_connected"
      by (simp add: new_job_def)
  qed (use step_typed [OF assms(1)] in auto)
  then show ?thesis by (auto simp: list_all2_conv_all_nth list_all_length)
qed

theorem addresses_well_typed_witness:
  "well_typed (DomainName [0x61] 80)"
proof -
  let ?a = "DomainName [0x61] 80"
  let ?c = "client_of (greeting [0] @ request ?a)"
  let ?l = "one_client\<lparr>listener := [Inr (mem_of (greeting [0] @ request ?a), remote_addr ?c)]\<rparr>"
  have c: "?c = mem_conn ?c (greeting [0] @ request ?a @ []) [] []"
    by (simp add: client_of_conn [symmetric])
  obtain c' where run: "next_request mem_tcp False ?c = (Inr ?a, c')"
    using mem_next_request [of "[0]" ?a False ?c "[]" "[]" "[]"] c
    by (simp add: socks5_consts)
  have l: "next_client list_listener ?l = (Inr ?c, ?l\<lparr>listener := []\<rparr>)"
    by (simp add: next_client_def list_listener_def one_client_def client_of_def)
  have "serve_step mem_tcp False mem_copies Linux small_net direct_cfg
      (Start, job_task (new_job ?c) (0 :: nat)) = (Requested ?a, (job_task (new_job ?c) 0)\<lparr>client := c'\<rparr>)"
    using run by (simp add: after_defs new_job_def job_task_def get_outgoing_def direct_cfg_def)
  from addresses_well_typed [OF mem_bytes accept_and_step [OF l this]]
  show ?thesis by (simp add: task_job_def)
qed

end
