(* ===== verification/Relay_Steps.thy ===== *)
theory Relay_Steps
  imports Connection
begin

text \<open>
  \<open>bicopy\<close> of \<open>src/connection.rs\<close> once more, in steps. \<open>futures::join!\<close> polls the two
  \<open>tokio::io::copy\<close> futures, in any order and any number of times, until each has returned;
  the peers of the two streams go on in between. One poll of a copy is a parameter, \<open>copy\<close>:
  it takes the bytes read and not yet written (in its buffer), the stream it reads and the
  one it writes. Its contract \<open>copy_future\<close> is about single polls only.
\<close>

type_synonym ('b, 's) copier = "'b \<Rightarrow> 's \<Rightarrow> 's \<Rightarrow> (io_error + u64) poll \<times> 'b \<times> 's \<times> 's"

text \<open>The streams, and for the copies \<open>i2o\<close> and \<open>o2i\<close> their buffers and their results.\<close>

record ('b, 's) copying =
  c_in :: 's
  c_out :: 's
  buf1 :: 'b
  buf2 :: 'b
  res1 :: "(io_error + u64) option"
  res2 :: "(io_error + u64) option"

definition start_copying :: "'b \<Rightarrow> 's \<Rightarrow> 's \<Rightarrow> ('b, 's) copying" where
  "start_copying fresh i o' =
     \<lparr>c_in = i, c_out = o', buf1 = fresh, buf2 = fresh, res1 = None, res2 = None\<rparr>"

fun outcome :: "'a poll \<Rightarrow> 'a option" where
  "outcome Pending = None"
| "outcome (Ready x) = Some x"

datatype ('b, 's) bicopy_state =
    Asking 's 's
  | Copying "('b, 's) copying"
  | Returned "(error, unit) res" 's 's

text \<open>
  The steps of one \<open>bicopy\<close>; \<open>peer\<close> is what the other end of a stream can do to it. A copy that
  has returned is not polled again.
\<close>

inductive bicopy_step ::
  "'s tcp \<Rightarrow> ('b, 's) copier \<Rightarrow> ('s \<Rightarrow> 's \<Rightarrow> bool) \<Rightarrow> 'b \<Rightarrow>
   ('b, 's) bicopy_state \<Rightarrow> ('b, 's) bicopy_state \<Rightarrow> bool"
  for T copy peer fresh where
  refused: "ask_addrs T i o' = Inl e \<Longrightarrow>
    bicopy_step T copy peer fresh (Asking i o') (Returned (Inl e) i o')"
| begins: "ask_addrs T i o' = Inr a \<Longrightarrow>
    bicopy_step T copy peer fresh (Asking i o') (Copying (start_copying fresh i o'))"
| polls_i2o: "res1 c = None \<Longrightarrow> copy (buf1 c) (c_in c) (c_out c) = (p, b, s, d) \<Longrightarrow>
    bicopy_step T copy peer fresh (Copying c)
      (Copying (c\<lparr>c_in := s, c_out := d, buf1 := b, res1 := outcome p\<rparr>))"
| polls_o2i: "res2 c = None \<Longrightarrow> copy (buf2 c) (c_out c) (c_in c) = (p, b, s, d) \<Longrightarrow>
    bicopy_step T copy peer fresh (Copying c)
      (Copying (c\<lparr>c_in := d, c_out := s, buf2 := b, res2 := outcome p\<rparr>))"
| peer_in: "peer (c_in c) s \<Longrightarrow>
    bicopy_step T copy peer fresh (Copying c) (Copying (c\<lparr>c_in := s\<rparr>))"
| peer_out: "peer (c_out c) s \<Longrightarrow>
    bicopy_step T copy peer fresh (Copying c) (Copying (c\<lparr>c_out := s\<rparr>))"
| joined: "res1 c = Some r1 \<Longrightarrow> res2 c = Some r2 \<Longrightarrow>
    bicopy_step T copy peer fresh (Copying c) (Returned (relay_result (r1, r2)) (c_in c) (c_out c))"

inductive_cases bicopy_step_fromE [elim]:
  "bicopy_step T copy peer fresh (Asking i o') b"
  "bicopy_step T copy peer fresh (Copying c) b"
  "bicopy_step T copy peer fresh (Returned r i' o'') b"

abbreviation bicopy_steps ::
  "'s tcp \<Rightarrow> ('b, 's) copier \<Rightarrow> ('s \<Rightarrow> 's \<Rightarrow> bool) \<Rightarrow> 'b \<Rightarrow>
   ('b, 's) bicopy_state \<Rightarrow> ('b, 's) bicopy_state \<Rightarrow> bool" where
  "bicopy_steps T copy peer fresh \<equiv> (bicopy_step T copy peer fresh)\<^sup>*\<^sup>*"

section \<open>One poll of a copy\<close>

text \<open>
  A poll writes what was in the buffer and what it reads, in this order, and keeps the rest in
  the buffer, which has room for \<open>cap\<close> bytes; a copy that reports success has written
  everything. \<open>told_end\<close> says that the peer has been told the end of what it is sent
  (\<open>shutdown\<close>), which a copy does not do, at its end either.
\<close>

locale copy_future =
  fixes copy :: "('b, 's) copier" and peer :: "'s \<Rightarrow> 's \<Rightarrow> bool"
    and rcvd sent :: "'s \<Rightarrow> u8 list" and held :: "'b \<Rightarrow> u8 list" and fresh :: 'b and cap :: nat
    and told_end :: "'s \<Rightarrow> bool"
  assumes fresh_empty: "held fresh = []"
    and copy_moves: "copy b s d = (p, b', s', d') \<Longrightarrow>
      \<exists>x w. rcvd s' = rcvd s @ x \<and> sent d' = sent d @ w \<and> held b @ x = w @ held b'"
    and copy_keeps: "copy b s d = (p, b', s', d') \<Longrightarrow>
      sent s' = sent s \<and> rcvd d' = rcvd d \<and> told_end s' = told_end s \<and> told_end d' = told_end d"
    and copy_room: "copy b s d = (p, b', s', d') \<Longrightarrow> length (held b) \<le> cap \<Longrightarrow> length (held b') \<le> cap"
    and copy_success: "copy b s d = (Ready (Inr n), b', s', d') \<Longrightarrow> held b' = []"
    and peer_keeps: "peer s s' \<Longrightarrow>
      rcvd s' = rcvd s \<and> sent s' = sent s \<and> told_end s' = told_end s"

text \<open>
  The same, for streams of which it is known what is there to be read (\<open>unread\<close>: what the peer
  has sent and has not been read): nothing of it is lost, and a copy that reports success has read
  it to its end.
\<close>

locale draining_copy =
  copy_future copy peer rcvd sent held fresh cap told_end
  for copy :: "('b, 's) copier" and peer rcvd sent held fresh cap told_end +
  fixes unread :: "'s \<Rightarrow> u8 list"
  assumes copy_loses_nothing: "copy b s d = (p, b', s', d') \<Longrightarrow>
      prefix (rcvd s @ unread s) (rcvd s' @ unread s') \<and> prefix (unread d) (unread d')"
    and copy_drains: "copy b s d = (Ready (Inr n), b', s', d') \<Longrightarrow> unread s' = []"
    and peer_loses_nothing: "peer s s' \<Longrightarrow> prefix (unread s) (unread s')"

text \<open>Of any stream it is known that nothing need be there to be read.\<close>

sublocale copy_future \<subseteq> nothing_unread: draining_copy copy peer rcvd sent held fresh cap told_end "\<lambda>_. []"
  by unfold_locales (auto dest: copy_moves)

context copy_future
begin

lemma drains_nothing: "draining_copy copy peer rcvd sent held fresh cap told_end (\<lambda>_. [])"
  by (rule nothing_unread.draining_copy_axioms)

end

text \<open>
  \<open>moved rcvd sent held cap s0 d0 b s d\<close>: what was read of \<open>s\<close> since \<open>s0\<close> is what was sent
  to \<open>d\<close> since \<open>d0\<close> and the bytes in the buffer, at most \<open>cap\<close>.
\<close>

definition moved ::
  "('s \<Rightarrow> u8 list) \<Rightarrow> ('s \<Rightarrow> u8 list) \<Rightarrow> ('b \<Rightarrow> u8 list) \<Rightarrow> nat \<Rightarrow> 's \<Rightarrow> 's \<Rightarrow> 'b \<Rightarrow> 's \<Rightarrow> 's \<Rightarrow> bool" where
  "moved rcvd sent held cap s0 d0 b s d \<longleftrightarrow>
     (\<exists>w. rcvd s = rcvd s0 @ w @ held b \<and> sent d = sent d0 @ w \<and> length (held b) \<le> cap)"

definition copying_ok ::
  "('s \<Rightarrow> u8 list) \<Rightarrow> ('s \<Rightarrow> u8 list) \<Rightarrow> ('b \<Rightarrow> u8 list) \<Rightarrow> nat \<Rightarrow> 's \<Rightarrow> 's \<Rightarrow> ('b, 's) copying \<Rightarrow> bool" where
  "copying_ok rcvd sent held cap i o' c \<longleftrightarrow>
     moved rcvd sent held cap i o' (buf1 c) (c_in c) (c_out c) \<and>
     moved rcvd sent held cap o' i (buf2 c) (c_out c) (c_in c) \<and>
     (\<forall>n. res1 c = Some (Inr n) \<longrightarrow> held (buf1 c) = []) \<and>
     (\<forall>n. res2 c = Some (Inr n) \<longrightarrow> held (buf2 c) = [])"

definition copying_drains ::
  "('s \<Rightarrow> u8 list) \<Rightarrow> ('s \<Rightarrow> u8 list) \<Rightarrow> 's \<Rightarrow> 's \<Rightarrow> ('b, 's) copying \<Rightarrow> bool" where
  "copying_drains rcvd unread i o' c \<longleftrightarrow>
     prefix (rcvd i @ unread i) (rcvd (c_in c) @ unread (c_in c)) \<and>
     prefix (rcvd o' @ unread o') (rcvd (c_out c) @ unread (c_out c)) \<and>
     (\<forall>n. res1 c = Some (Inr n) \<longrightarrow> prefix (rcvd i @ unread i) (rcvd (c_in c))) \<and>
     (\<forall>n. res2 c = Some (Inr n) \<longrightarrow> prefix (rcvd o' @ unread o') (rcvd (c_out c)))"

fun bicopy_ok ::
  "'s tcp \<Rightarrow> ('s \<Rightarrow> u8 list) \<Rightarrow> ('s \<Rightarrow> u8 list) \<Rightarrow> ('s \<Rightarrow> u8 list) \<Rightarrow> ('b \<Rightarrow> u8 list) \<Rightarrow> nat \<Rightarrow> 's \<Rightarrow> 's \<Rightarrow>
   ('b, 's) bicopy_state \<Rightarrow> bool" where
  "bicopy_ok T rcvd sent unread held cap i o' (Asking i1 o1) \<longleftrightarrow> i1 = i \<and> o1 = o'"
| "bicopy_ok T rcvd sent unread held cap i o' (Copying c) \<longleftrightarrow>
     \<not> isl (ask_addrs T i o') \<and> copying_ok rcvd sent held cap i o' c \<and> copying_drains rcvd unread i o' c"
| "bicopy_ok T rcvd sent unread held cap i o' (Returned r i1 o1) \<longleftrightarrow>
     (\<exists>e. ask_addrs T i o' = Inl e \<and> r = Inl e \<and> i1 = i \<and> o1 = o') \<or>
     (\<exists>rs. \<not> isl (ask_addrs T i o') \<and> r = relay_result rs \<and> copies_ok rcvd sent i o' (rs, i1, o1) \<and>
        drained rcvd unread i o' (rs, i1, o1))"

context copy_future
begin

lemma moved_poll:
  assumes "moved rcvd sent held cap s0 d0 b s d" and "copy b s d = (p, b', s', d')"
  shows "moved rcvd sent held cap s0 d0 b' s' d'"
proof -
  from assms(1) obtain w where w: "rcvd s = rcvd s0 @ w @ held b" "sent d = sent d0 @ w" "length (held b) \<le> cap"
    unfolding moved_def by blast
  moreover from copy_moves [OF assms(2)] obtain x u where
    "rcvd s' = rcvd s @ x" "sent d' = sent d @ u" "held b @ x = u @ held b'" by blast
  ultimately show ?thesis
    using copy_room [OF assms(2)] unfolding moved_def by (intro exI [of _ "w @ u"]) simp
qed

lemma moved_same:
  "moved rcvd sent held cap s0 d0 b s d \<Longrightarrow> rcvd s' = rcvd s \<Longrightarrow> sent d' = sent d \<Longrightarrow>
   moved rcvd sent held cap s0 d0 b s' d'"
  by (simp add: moved_def)

lemma moved_start: "moved rcvd sent held cap s d fresh s d"
  by (simp add: moved_def fresh_empty)

lemma outcome_success: "outcome p = Some (Inr n) \<Longrightarrow> copy b s d = (p, b', s', d') \<Longrightarrow> held b' = []"
  using copy_success by (cases p) auto

lemma copying_ok_joined:
  assumes "copying_ok rcvd sent held cap i o' c" and "res1 c = Some r1" and "res2 c = Some r2"
  shows "copies_ok rcvd sent i o' ((r1, r2), c_in c, c_out c)"
proof -
  from assms(1) obtain u v where
    "rcvd (c_in c) = rcvd i @ u @ held (buf1 c)" "sent (c_out c) = sent o' @ u"
    "rcvd (c_out c) = rcvd o' @ v @ held (buf2 c)" "sent (c_in c) = sent i @ v"
    unfolding copying_ok_def moved_def by blast
  moreover from assms have "\<not> isl r1 \<longrightarrow> held (buf1 c) = []" "\<not> isl r2 \<longrightarrow> held (buf2 c) = []"
    unfolding copying_ok_def by (metis sum.collapse(2))+
  ultimately show ?thesis by (auto simp: copies_ok_def copied_def)
qed

lemma copying_ok_step:
  "bicopy_step T copy peer fresh (Copying c) (Copying c') \<Longrightarrow> copying_ok rcvd sent held cap i o' c \<Longrightarrow>
   copying_ok rcvd sent held cap i o' c'"
proof (induction "Copying c :: ('b, 's) bicopy_state" "Copying c' :: ('b, 's) bicopy_state" rule: bicopy_step.induct)
  case (polls_i2o p b s d)
  with moved_poll [OF _ polls_i2o(2)] copy_keeps [OF polls_i2o(2)] outcome_success [OF _ polls_i2o(2)]
  show ?case by (auto simp: copying_ok_def elim: moved_same)
next
  case (polls_o2i p b s d)
  with moved_poll [OF _ polls_o2i(2)] copy_keeps [OF polls_o2i(2)] outcome_success [OF _ polls_o2i(2)]
  show ?case by (auto simp: copying_ok_def elim: moved_same)
next
  case (peer_in s)
  with peer_keeps [OF peer_in(1)] show ?case by (auto simp: copying_ok_def elim: moved_same)
next
  case (peer_out s)
  with peer_keeps [OF peer_out(1)] show ?case by (auto simp: copying_ok_def elim: moved_same)
qed

end

context draining_copy
begin

lemma poll_prefix:
  assumes "copy b s d = (p, b', s', d')"
  shows "prefix x (rcvd s @ unread s) \<Longrightarrow> prefix x (rcvd s' @ unread s')"
    and "prefix x (rcvd d @ unread d) \<Longrightarrow> prefix x (rcvd d' @ unread d')"
    and "prefix x (rcvd s) \<Longrightarrow> prefix x (rcvd s')"
    and "outcome p = Some (Inr n) \<Longrightarrow> prefix x (rcvd s @ unread s) \<Longrightarrow> prefix x (rcvd s')"
proof -
  note keeps = copy_loses_nothing [OF assms] copy_keeps [OF assms]
  show s: "prefix x (rcvd s @ unread s) \<Longrightarrow> prefix x (rcvd s' @ unread s')"
    using keeps by (blast intro: prefix_order.trans)
  show "prefix x (rcvd d @ unread d) \<Longrightarrow> prefix x (rcvd d' @ unread d')"
    using keeps by (auto intro: prefix_order.trans)
  show "prefix x (rcvd s) \<Longrightarrow> prefix x (rcvd s')"
    using copy_moves [OF assms] by auto
  show "outcome p = Some (Inr n) \<Longrightarrow> prefix x (rcvd s @ unread s) \<Longrightarrow> prefix x (rcvd s')"
    using s copy_drains [of b s d n] assms by (cases p) auto
qed

lemma copying_drains_step:
  "bicopy_step T copy peer fresh (Copying c) (Copying c') \<Longrightarrow> copying_drains rcvd unread i o' c \<Longrightarrow>
   copying_drains rcvd unread i o' c'"
proof (induction "Copying c :: ('b, 's) bicopy_state" "Copying c' :: ('b, 's) bicopy_state" rule: bicopy_step.induct)
  case (polls_i2o p b s d)
  with poll_prefix [OF polls_i2o(2)] copy_keeps [OF polls_i2o(2)] show ?case
    by (auto simp: copying_drains_def)
next
  case (polls_o2i p b s d)
  with poll_prefix [OF polls_o2i(2)] copy_keeps [OF polls_o2i(2)] show ?case
    by (auto simp: copying_drains_def)
next
  case (peer_in s)
  with peer_keeps [OF peer_in(1)] peer_loses_nothing [OF peer_in(1)] show ?case
    by (auto simp: copying_drains_def intro: prefix_order.trans)
next
  case (peer_out s)
  with peer_keeps [OF peer_out(1)] peer_loses_nothing [OF peer_out(1)] show ?case
    by (auto simp: copying_drains_def intro: prefix_order.trans)
qed

lemma copying_drains_joined:
  "copying_drains rcvd unread i o' c \<Longrightarrow> res1 c = Some r1 \<Longrightarrow> res2 c = Some r2 \<Longrightarrow>
   drained rcvd unread i o' ((r1, r2), c_in c, c_out c)"
  unfolding copying_drains_def drained_def prod.case by (metis sum.collapse(2))

lemma bicopy_step_ok:
  assumes "bicopy_step T copy peer fresh b b'" and "bicopy_ok T rcvd sent unread held cap i o' b"
  shows "bicopy_ok T rcvd sent unread held cap i o' b'"
proof (cases "\<exists>c c'. b = Copying c \<and> b' = Copying c'")
  case True
  with assms copying_ok_step copying_drains_step show ?thesis by fastforce
next
  case False
  from assms(1) show ?thesis
  proof (cases rule: bicopy_step.cases)
    case (begins i1 o1 a)
    with assms(2) show ?thesis
      by (simp add: copying_ok_def copying_drains_def start_copying_def moved_start)
  next
    case (joined c r1 r2)
    with assms(2) copying_ok_joined [OF _ joined(3,4)] copying_drains_joined [OF _ joined(3,4)] show ?thesis
      unfolding joined(2) bicopy_ok.simps(3) by (intro disjI2 exI [of _ "(r1, r2)"]) simp
  qed (use False assms(2) in auto)
qed

lemma bicopy_steps_ok:
  "bicopy_steps T copy peer fresh (Asking i o') b \<Longrightarrow> bicopy_ok T rcvd sent unread held cap i o' b"
  by (induction rule: rtranclp_induct) (auto intro: bicopy_step_ok)

text \<open>What a relay that has returned has done.\<close>

lemma returned_relay:
  assumes "bicopy_steps T copy peer fresh (Asking i o') (Returned r i1 o1)"
  shows "r \<noteq> Inl Panic \<and> relayed rcvd sent i o' i1 o1 \<and>
    (r = Inr () \<longrightarrow> delivered rcvd sent unread i o' i1 o1)"
  using bicopy_steps_ok [OF assms]
  by (auto dest: copies_ok_relayed simp: relayed_refl intro: drained_delivered [OF copies_ok_all])

end

section \<open>The copies as one step\<close>

text \<open>
  Two copies that do nothing but fail, except between one pair of streams: what a run of
  \<open>bicopy\<close> did between that pair is a pair of copies as \<open>relay_stream\<close> asks for.
\<close>

definition copies_once ::
  "'s \<Rightarrow> 's \<Rightarrow> ((io_error + u64) \<times> (io_error + u64)) \<times> 's \<times> 's \<Rightarrow> 's copies" where
  "copies_once i o' res f g a b =
     (if f = i2o_copy \<and> g = o2i_copy \<and> a = i \<and> b = o' then res
      else ((Inl (io_of_kind KOther), Inl (io_of_kind KOther)), a, b))"

lemma copies_once_here [simp]: "copies_once i o' res i2o_copy o2i_copy i o' = res"
  by (simp add: copies_once_def)

lemma copied_failed [simp]: "copied rcvd sent f (Inl e) i o' i o'"
  by (simp add: copied_def)

lemma copies_once_stream:
  "byte_stream T rcvd sent \<Longrightarrow> copies_ok rcvd sent i o' res \<Longrightarrow>
   relay_stream T rcvd sent (copies_once i o' res)"
  by (auto simp: relay_stream_def relay_stream_axioms_def copies_once_def copies_ok_def split: if_splits)

text \<open>A pair of copies, wired as the relay wires them, that reads everything when it succeeds.\<close>

definition drains :: "('s \<Rightarrow> u8 list) \<Rightarrow> ('s \<Rightarrow> u8 list) \<Rightarrow> 's copies \<Rightarrow> bool" where
  "drains rcvd unread copies \<longleftrightarrow>
     (\<forall>i o'. drained rcvd unread i o' (copies i2o_copy o2i_copy i o'))"

lemma copies_once_drains: "drained rcvd unread i o' res \<Longrightarrow> drains rcvd unread (copies_once i o' res)"
  by (auto simp: drains_def copies_once_def drained_def)

lemma bicopy_drained:
  assumes "bicopy T copies i o' = (Inr u, i', o'')" and "relay_stream T rcvd sent copies"
    and "drains rcvd unread copies"
  shows "delivered rcvd sent unread i o' i' o''"
proof -
  from assms(1) obtain n m where "copies i2o_copy o2i_copy i o' = ((Inr n, Inr m), i', o'')"
    by (auto simp: bicopy_wired split: sum.splits prod.splits)
  with assms(3) have "drained rcvd unread i o' ((Inr n, Inr m), i', o'')"
    unfolding drains_def by metis
  with relay_stream.bicopy_complete [OF assms(2,1)] show ?thesis by (rule drained_delivered)
qed

lemma bicopy_returned:
  assumes "byte_stream T rcvd sent" and "bicopy_ok T rcvd sent unread held cap i o' (Returned r i1 o1)"
  shows "\<exists>copies. relay_stream T rcvd sent copies \<and> drains rcvd unread copies \<and>
    bicopy T copies i o' = (r, i1, o1)"
proof (cases "ask_addrs T i o'")
  case (Inl e)
  let ?c = "copies_once i o' ((Inl (io_of_kind KOther), Inl (io_of_kind KOther)), i, o')"
  have "relay_stream T rcvd sent ?c" "drains rcvd unread ?c"
    by (simp_all add: copies_once_stream [OF assms(1)] copies_ok_def copies_once_drains drained_def)
  with Inl assms(2) show ?thesis by (auto simp: bicopy_def)
next
  case (Inr a)
  with assms(2) obtain rs where "r = relay_result rs" "copies_ok rcvd sent i o' (rs, i1, o1)"
    "drained rcvd unread i o' (rs, i1, o1)"
    by auto
  with Inr copies_once_stream [OF assms(1)] copies_once_drains show ?thesis
    by (intro exI [of _ "copies_once i o' (rs, i1, o1)"]) (simp add: bicopy_wired)
qed

section \<open>A peer that waits\<close>

text \<open>
  Streams with a peer that answers only when it has been told the end of what it is sent: as
  long as it is not told, there is nothing to copy from it, and it keeps waiting.
\<close>

locale waiting_peer =
  copy_future copy peer rcvd sent held fresh cap told_end
  for copy :: "('b, 's) copier" and peer rcvd sent held fresh cap told_end +
  fixes waits :: "'s \<Rightarrow> bool"
  assumes waits_pending: "waits s \<Longrightarrow> \<not> told_end s \<Longrightarrow> copy b s d = (p, b', s', d') \<Longrightarrow>
      p = Pending \<and> waits s'"
    and waits_written: "waits d \<Longrightarrow> \<not> told_end d \<Longrightarrow> copy b s d = (p, b', s', d') \<Longrightarrow> waits d'"
    and waits_peer: "waits s \<Longrightarrow> \<not> told_end s \<Longrightarrow> peer s s' \<Longrightarrow> waits s'"

fun stuck :: "'s tcp \<Rightarrow> ('s \<Rightarrow> bool) \<Rightarrow> ('s \<Rightarrow> bool) \<Rightarrow> ('b, 's) bicopy_state \<Rightarrow> bool" where
  "stuck T waits told_end (Asking i o') \<longleftrightarrow>
     waits o' \<and> \<not> told_end o' \<and> \<not> isl (ask_addrs T i o')"
| "stuck T waits told_end (Copying c) \<longleftrightarrow> waits (c_out c) \<and> \<not> told_end (c_out c) \<and> res2 c = None"
| "stuck T waits told_end (Returned r i o') \<longleftrightarrow> False"

context waiting_peer
begin

lemma stuck_step:
  "bicopy_step T copy peer fresh b b' \<Longrightarrow> stuck T waits told_end b \<Longrightarrow> stuck T waits told_end b'"
proof (induction rule: bicopy_step.induct)
  case (polls_i2o c p b s d)
  with waits_written [OF _ _ polls_i2o(2)] copy_keeps [OF polls_i2o(2)] show ?case by simp
next
  case (polls_o2i c p b s d)
  with waits_pending [OF _ _ polls_o2i(2)] copy_keeps [OF polls_o2i(2)] show ?case by simp
qed (auto simp: start_copying_def dest: peer_keeps waits_peer)

lemma stuck_steps:
  "bicopy_steps T copy peer fresh b b' \<Longrightarrow> stuck T waits told_end b \<Longrightarrow> stuck T waits told_end b'"
  by (induction rule: rtranclp_induct) (auto intro: stuck_step)

end

section \<open>Copies in memory\<close>

text \<open>
  A copy that alternately reads up to two bytes and writes them; its state is its count and its
  buffer. The peer may send more in between.
\<close>

definition mem_copy :: "(nat \<times> u8 list, 'x mem_stream_scheme) copier" where
  "mem_copy b s d =
     (case b of (n, h) \<Rightarrow>
        if h \<noteq> [] then (Pending, (n + length h, []), s, d\<lparr>ms_out := ms_out d @ h\<rparr>)
        else if ms_in s \<noteq> []
        then (Pending, (n, take 2 (ms_in s)),
              s\<lparr>ms_in := drop 2 (ms_in s), ms_read := ms_read s @ take 2 (ms_in s)\<rparr>, d)
        else (Ready (Inr (of_nat n)), b, s, d))"

definition mem_sends :: "mem_stream \<Rightarrow> mem_stream \<Rightarrow> bool" where
  "mem_sends s s' \<longleftrightarrow> (\<exists>bs. s' = s\<lparr>ms_in := ms_in s @ bs\<rparr>)"

interpretation mem_copies: draining_copy mem_copy mem_sends ms_read ms_out snd "(0, [])" 2 "\<lambda>_. False" ms_in
  by unfold_locales (auto simp: mem_copy_def mem_sends_def split: prod.splits if_splits)

text \<open>Streams whose peer may wait for the end of what it is sent, and sends nothing then.\<close>

record peer_stream = mem_stream +
  ps_waits :: bool
  ps_told :: bool

definition peer_tcp :: "peer_stream tcp" where
  "peer_tcp = \<lparr>tcp_read_exact = (\<lambda>n s.
       if n \<le> length (ms_in s)
       then (Inr (take n (ms_in s)),
             s\<lparr>ms_in := drop n (ms_in s), ms_read := ms_read s @ take n (ms_in s)\<rparr>)
       else (Inl (io_of_kind KUnexpectedEof), s)),
     tcp_write_all = (\<lambda>bs s. (Inr (), s\<lparr>ms_out := ms_out s @ bs\<rparr>)),
     tcp_local_addr = (\<lambda>_. Inr (socket_addr (V4 (Ipv4 127 0 0 1)) 1080)),
     tcp_peer_addr = (\<lambda>_. Inr (socket_addr (V4 (Ipv4 127 0 0 1)) 50000))\<rparr>"

definition peer_copy :: "(nat \<times> u8 list, peer_stream) copier" where
  "peer_copy b s d =
     (if snd b = [] \<and> ms_in s = [] \<and> ps_waits s \<and> \<not> ps_told s then (Pending, b, s, d)
      else mem_copy b s d)"

definition peer_sends :: "peer_stream \<Rightarrow> peer_stream \<Rightarrow> bool" where
  "peer_sends s s' \<longleftrightarrow> (\<exists>bs. s' = s\<lparr>ms_in := ms_in s @ bs\<rparr> \<and> (ps_waits s \<longrightarrow> bs = []))"

interpretation peer_copies: waiting_peer peer_copy peer_sends ms_read ms_out snd "(0, [])" 2 ps_told
  "\<lambda>s. ps_waits s \<and> ms_in s = []"
  by unfold_locales (auto simp: peer_copy_def mem_copy_def peer_sends_def split: prod.splits if_splits)

interpretation peer_drains: draining_copy peer_copy peer_sends ms_read ms_out snd "(0, [])" 2 ps_told ms_in
  by unfold_locales (auto simp: peer_copy_def mem_copy_def peer_sends_def split: prod.splits if_splits)

interpretation peer_bytes: byte_stream peer_tcp ms_read ms_out
  by unfold_locales (auto simp: peer_tcp_def split: if_splits)

text \<open>A schedule: which copy is polled, \<open>i2o\<close> or not.\<close>

definition poll_copy :: "('b, 's) copier \<Rightarrow> bool \<Rightarrow> ('b, 's) copying \<Rightarrow> ('b, 's) copying" where
  "poll_copy copy i2o c =
     (if i2o
      then (case copy (buf1 c) (c_in c) (c_out c) of
              (p, b, s, d) \<Rightarrow> c\<lparr>c_in := s, c_out := d, buf1 := b, res1 := outcome p\<rparr>)
      else (case copy (buf2 c) (c_out c) (c_in c) of
              (p, b, s, d) \<Rightarrow> c\<lparr>c_in := d, c_out := s, buf2 := b, res2 := outcome p\<rparr>))"

fun poll_copies :: "('b, 's) copier \<Rightarrow> bool list \<Rightarrow> ('b, 's) copying \<Rightarrow> ('b, 's) copying" where
  "poll_copies copy [] c = c"
| "poll_copies copy (h # hs) c =
     (if (if h then res1 c else res2 c) = None then poll_copies copy hs (poll_copy copy h c)
      else poll_copies copy hs c)"

lemma poll_copies_steps: "bicopy_steps T copy peer fresh (Copying c) (Copying (poll_copies copy hs c))"
proof (induction copy hs c rule: poll_copies.induct)
  case (2 copy h hs c)
  show ?case
  proof (cases "(if h then res1 c else res2 c) = None")
    case True
    then have "bicopy_step T copy peer fresh (Copying c) (Copying (poll_copy copy h c))"
      by (auto simp: poll_copy_def split: prod.split if_splits intro: bicopy_step.polls_i2o bicopy_step.polls_o2i)
    with 2(1) True show ?thesis by (auto intro: converse_rtranclp_into_rtranclp)
  qed (use 2(2) in auto)
qed simp

lemma scheduled:
  assumes "ask_addrs T i o' = Inr a"
  shows "bicopy_steps T copy peer fresh (Asking i o') (Copying (poll_copies copy hs (start_copying fresh i o')))"
  using bicopy_step.begins [OF assms] poll_copies_steps by (rule converse_rtranclp_into_rtranclp)

lemma scheduled_joined:
  assumes "ask_addrs T i o' = Inr a"
    and "poll_copies copy hs (start_copying fresh i o') = c" and "res1 c = Some r1" and "res2 c = Some r2"
  shows "bicopy_steps T copy peer fresh (Asking i o')
    (Returned (relay_result (r1, r2)) (c_in c) (c_out c))"
  using scheduled [OF assms(1), of copy peer fresh hs] bicopy_step.joined [OF assms(3,4)] assms(2)
  by (auto intro: rtranclp.rtrancl_into_rtrancl)

definition peer_of :: "u8 list \<Rightarrow> bool \<Rightarrow> peer_stream" where
  "peer_of bs w = \<lparr>ms_in = bs, ms_read = [], ms_out = [], ps_waits = w, ps_told = False\<rparr>"

lemma peer_asked: "ask_addrs peer_tcp s d = Inr (from_addr (socket_addr (V4 (Ipv4 127 0 0 1)) 50000))"
  by (simp add: ask_addrs_def l_addr_def p_addr_def peer_tcp_def)

lemmas peer_eval = start_copying_def poll_copy_def peer_copy_def mem_copy_def peer_of_def

section \<open>Properties\<close>

text \<open>
  C17. At every moment of a relay, however the two copies are polled, each peer has been sent
  exactly what was read from the other one, less the bytes in that copy's buffer, which has its
  fixed room: nothing is invented, reordered or lost, and the delay is bounded.
\<close>

theorem relay_holds_little:
  assumes "copy_future copy peer rcvd sent held fresh cap told_end"
    and "bicopy_steps T copy peer fresh (Asking i o') (Copying c)"
  shows "moved rcvd sent held cap i o' (buf1 c) (c_in c) (c_out c) \<and>
    moved rcvd sent held cap o' i (buf2 c) (c_out c) (c_in c)"
  using draining_copy.bicopy_steps_ok [OF copy_future.drains_nothing [OF assms(1)] assms(2)]
  by (simp add: copying_ok_def)

theorem relay_holds_little_witness:
  "moved ms_read ms_out snd 2 (peer_of [1, 2, 3] False) (peer_of [] False) (0 :: nat, [1, 2])
     \<lparr>ms_in = [3], ms_read = [1, 2], ms_out = [], ps_waits = False, ps_told = False\<rparr>
     \<lparr>ms_in = [], ms_read = [], ms_out = [], ps_waits = False, ps_told = False\<rparr>"
  using relay_holds_little [OF peer_copies.copy_future_axioms
      scheduled [OF peer_asked, of peer_copy peer_sends "(0, [])" "peer_of [1, 2, 3] False"
        "peer_of [] False" "[True]"]]
  by (simp add: peer_eval)

text \<open>
  The relay of the other theorems is the relay in steps: whatever order the copies are
  polled in and whatever the peers do meanwhile, a run of \<open>bicopy\<close> that returns has done in one
  step what \<open>bicopy\<close> does with some pair of copies that deserves the name (\<open>relay_stream\<close>).
\<close>

lemma relay_steps_refine:
  assumes "draining_copy copy peer rcvd sent held fresh cap told_end unread" and "byte_stream T rcvd sent"
    and "bicopy_steps T copy peer fresh (Asking i o') (Returned r i1 o1)"
  shows "\<exists>copies. relay_stream T rcvd sent copies \<and> drains rcvd unread copies \<and>
    bicopy T copies i o' = (r, i1, o1)"
  using assms(2) draining_copy.bicopy_steps_ok [OF assms(1,3)] by (rule bicopy_returned)

text \<open>
  C19. The relay neither invents, alters nor reorders a byte, and does not report a success it did
  not have: over any two streams, with the polls of the two copies and what the peers do in any
  order, a relay that has returned did not panic and has sent to each side a prefix of what it
  read from the other. Either an address could not be asked for, which it reports, or both copies
  have returned, and it reports success exactly if both have succeeded; then each side has been
  sent everything the other side had sent when the relay began, and all that was read after it.
\<close>

theorem relay_integrity:
  assumes "draining_copy copy peer rcvd sent held fresh cap told_end unread"
    and "bicopy_steps T copy peer fresh (Asking i o') (Returned r i1 o1)"
  shows "r \<noteq> Inl Panic \<and> relayed rcvd sent i o' i1 o1 \<and>
    (r = Inr () \<longrightarrow> delivered rcvd sent unread i o' i1 o1) \<and>
    ((\<exists>e. ask_addrs T i o' = Inl e \<and> r = Inl e) \<or>
     (\<exists>c r1 r2. bicopy_steps T copy peer fresh (Asking i o') (Copying c) \<and>
       c_in c = i1 \<and> c_out c = o1 \<and> res1 c = Some r1 \<and> res2 c = Some r2 \<and>
       (r = Inr () \<longleftrightarrow> \<not> isl r1 \<and> \<not> isl r2)))"
proof (intro conjI)
  show "r \<noteq> Inl Panic" "relayed rcvd sent i o' i1 o1" "r = Inr () \<longrightarrow> delivered rcvd sent unread i o' i1 o1"
    using draining_copy.returned_relay [OF assms] by simp_all
  from assms(2) obtain b where b: "bicopy_steps T copy peer fresh (Asking i o') b"
    "bicopy_step T copy peer fresh b (Returned r i1 o1)"
    by (cases rule: rtranclp.cases) auto
  from b(2) show "(\<exists>e. ask_addrs T i o' = Inl e \<and> r = Inl e) \<or>
    (\<exists>c r1 r2. bicopy_steps T copy peer fresh (Asking i o') (Copying c) \<and>
       c_in c = i1 \<and> c_out c = o1 \<and> res1 c = Some r1 \<and> res2 c = Some r2 \<and>
       (r = Inr () \<longleftrightarrow> \<not> isl r1 \<and> \<not> isl r2))"
  proof (cases rule: bicopy_step.cases)
    case (refused e)
    with draining_copy.bicopy_steps_ok [OF assms(1) b(1)] show ?thesis by auto
  next
    case (joined c r1 r2)
    with b(1) show ?thesis
      by (intro disjI2 exI [of _ c] exI [of _ r1] exI [of _ r2]) (cases r1; cases r2; simp)
  qed
qed

theorem relay_integrity_witness:
  "delivered ms_read ms_out ms_in (peer_of [1, 2] False) (peer_of [3] False)
     \<lparr>ms_in = [], ms_read = [1, 2], ms_out = [3], ps_waits = False, ps_told = False\<rparr>
     \<lparr>ms_in = [], ms_read = [3], ms_out = [1, 2], ps_waits = False, ps_told = False\<rparr>"
proof -
  have c: "poll_copies peer_copy [True, False, True, False, True, False]
      (start_copying (0, []) (peer_of [1, 2] False) (peer_of [3] False)) =
    \<lparr>c_in = \<lparr>ms_in = [], ms_read = [1, 2], ms_out = [3], ps_waits = False, ps_told = False\<rparr>,
      c_out = \<lparr>ms_in = [], ms_read = [3], ms_out = [1, 2], ps_waits = False, ps_told = False\<rparr>,
      buf1 = (2, []), buf2 = (1, []), res1 = Some (Inr 2), res2 = Some (Inr 1)\<rparr>"
    by (simp add: peer_eval)
  from relay_integrity [OF peer_drains.draining_copy_axioms
      scheduled_joined [where ?r1.0 = "Inr 2" and ?r2.0 = "Inr 1", OF peer_asked c]]
  show ?thesis by (simp add: relay_result_def)
qed

text \<open>
  C18. A relay does not forward the end of one direction: when the remote side closes only after
  it has been told the end of what it is sent, it is never told, also when the client has closed
  its side and everything was delivered, and the relay never returns. Both connections stay
  open until the remote side gives up.
\<close>

theorem half_close_never_ends:
  assumes "waiting_peer copy peer rcvd sent held fresh cap told_end waits"
    and "waits o'" and "\<not> told_end o'" and "ask_addrs T i o' = Inr a"
    and "bicopy_steps T copy peer fresh (Asking i o') b"
  shows "case b of
      Asking i1 o1 \<Rightarrow> \<not> told_end o1
    | Copying c \<Rightarrow> \<not> told_end (c_out c) \<and> res2 c = None
    | Returned r i1 o1 \<Rightarrow> False"
  using waiting_peer.stuck_steps [OF assms(1,5)] assms(2-4) by (cases b) auto

theorem half_close_never_ends_witness:
  "res1 (poll_copies peer_copy [True, True, True, False] (start_copying (0, [])
     (peer_of [1] False) (peer_of [] True))) = Some (Inr 1) \<and>
   res2 (poll_copies peer_copy [True, True, True, False] (start_copying (0, [])
     (peer_of [1] False) (peer_of [] True))) = None"
  using half_close_never_ends [OF peer_copies.waiting_peer_axioms _ _ peer_asked
      scheduled [OF peer_asked, of peer_copy peer_sends "(0, [])" "peer_of [1] False"
        "peer_of [] True" "[True, True, True, False]"]]
  by (simp add: peer_eval)

end
