(* ===== verification/Handshake_Steps.thy ===== *)
theory Handshake_Steps
  imports Socks5_Properties
begin

text \<open>
  The handshake of \<open>src/socks5/incoming.rs\<close> as the executor sees it: \<open>next_request\<close> gives up
  control at each read and each write it awaits. A handshake is a tree of the calls it will
  make, the branches of a read being the bytes it may return; the \<open>_h\<close> functions are
  the operations of \<open>Socks5\<close> as such trees. A call that fails ends the handshake (\<open>?\<close>).
\<close>

datatype 'a handshake =
    Return "(error, 'a) res"
  | Reading nat "u8 list \<Rightarrow> 'a handshake"
  | Writing "u8 list" "'a handshake"

primrec continue :: "'a handshake \<Rightarrow> ('a \<Rightarrow> 'b handshake) \<Rightarrow> 'b handshake" where
  "continue (Return r) f = (case r of Inl e \<Rightarrow> Return (Inl e) | Inr x \<Rightarrow> f x)"
| "continue (Reading n k) f = Reading n (\<lambda>bs. continue (k bs) f)"
| "continue (Writing bs h) f = Writing bs (continue h f)"

definition read_into_h :: "u8 list \<Rightarrow> nat \<Rightarrow> nat \<Rightarrow> u8 list handshake" where
  "read_into_h buf lo hi =
     (if lo \<le> hi \<and> hi \<le> length buf
      then Reading (hi - lo) (\<lambda>bs. Return (Inr (overwrite lo bs buf)))
      else Return (Inl Panic))"

definition authenticate_client_h :: "unit handshake" where
  "authenticate_client_h =
     continue (read_into_h (replicate 256 0) 0 2) (\<lambda>buf.
     let p = buf ! 0 in
     if p \<noteq> SOCKS5_PROTOCOL then Return (Inl (Raise (not_socks5 p)))
     else
       let num_auth_methods = buf ! 1 in
       continue (read_into_h buf 0 (unat num_auth_methods)) (\<lambda>buf.
       continue (Return (subslice 0 (unat num_auth_methods) buf)) (\<lambda>authenticate_methods.
       if SOCKS5_NO_AUTH \<notin> set authenticate_methods then
         Writing [SOCKS5_PROTOCOL, SOCKS5_NO_ACCEPTABLE_METHOD]
           (Return (Inl (Raise (from_description ''No supported method given''))))
       else Writing [SOCKS5_PROTOCOL, SOCKS5_NO_AUTH] (Return (Inr ())))))"

definition send_final_response_h :: "socks5_error \<Rightarrow> req_addr \<Rightarrow> unit handshake" where
  "send_final_response_h err addr =
     continue (Return (build_response err addr)) (\<lambda>resp. Writing resp (Return (Inr ())))"

text \<open>A \<open>Result\<close> kept as a value.\<close>

definition attempted :: "(error, 'a) res \<Rightarrow> (error, error + 'a) res" where
  "attempted r = (case r of Inr x \<Rightarrow> Inr (Inr x) | Inl (Raise e) \<Rightarrow> Inr (Inl e) | Inl Panic \<Rightarrow> Inl Panic)"

definition request_addr_h :: "bool \<Rightarrow> u8 list \<Rightarrow> (error + req_addr) handshake" where
  "request_addr_h debug_on buf =
     (let atyp = buf ! 3; b0 = buf ! 4 in
      case try_from atyp of
        Inr IPV4 \<Rightarrow>
          continue (read_into_h buf 5 10) (\<lambda>buf.
          continue (Return (subslice 4 10 buf)) (\<lambda>bs.
          Return (attempted (parse_address_v4 bs))))
      | Inr IPV6 \<Rightarrow>
          continue (read_into_h buf 5 22) (\<lambda>buf.
          continue (Return (subslice 4 22 buf)) (\<lambda>bs.
          Return (attempted (parse_address_v6 bs))))
      | Inr DOMAIN \<Rightarrow>
          let addr_len = unat b0 in
          continue (read_into_h buf 0 (addr_len + 2)) (\<lambda>buf.
          continue (Return (subslice 0 (addr_len + 2) buf)) (\<lambda>addr.
          continue (Return (attempted (parse_domain addr_len addr))) (\<lambda>r.
          if debug_on \<and> isl r then Return (Inl Panic) else Return (Inr r))))
      | Inl e \<Rightarrow>
          continue (send_final_response_h S5AddressTypeNotSupported default_req_addr) (\<lambda>_.
          Return (Inr (Inl e))))"

definition get_request_h :: "bool \<Rightarrow> req_addr handshake" where
  "get_request_h debug_on =
     continue (read_into_h (replicate 255 0) 0 5) (\<lambda>buf.
     let p = buf ! 0 in
     if p \<noteq> SOCKS5_PROTOCOL then Return (Inl (Raise (not_socks5 p)))
     else
       let cmd = buf ! 1 in
       if cmd \<noteq> SOCKS5_CMD_CONNECT then
         continue (send_final_response_h S5CommandNotSupported default_req_addr) (\<lambda>_.
         Return (Inl (Raise (from_description ''req cmd is not connect''))))
       else
         continue (request_addr_h debug_on buf) (\<lambda>addr.
         case addr of
           Inl e \<Rightarrow>
             continue (send_final_response_h S5AddressTypeNotSupported default_req_addr) (\<lambda>_.
             Return (Inl (Raise e)))
         | Inr r \<Rightarrow> Return (Inr r)))"

definition next_request_h :: "bool \<Rightarrow> req_addr handshake" where
  "next_request_h debug_on = continue authenticate_client_h (\<lambda>_. get_request_h debug_on)"

text \<open>One awaited call.\<close>

fun await_step ::
  "'s tcp \<Rightarrow> 'a handshake \<times> 's socks5_connected \<Rightarrow> 'a handshake \<times> 's socks5_connected" where
  "await_step T (Return r, c) = (Return r, c)"
| "await_step T (Reading n k, c) =
     (case read_exact T n c of (Inr bs, c) \<Rightarrow> (k bs, c) | (Inl e, c) \<Rightarrow> (Return (Inl e), c))"
| "await_step T (Writing bs h, c) =
     (case write_all T bs c of (Inr _, c) \<Rightarrow> (h, c) | (Inl e, c) \<Rightarrow> (Return (Inl e), c))"

section \<open>The tree and the handler\<close>

primrec run_all :: "'s tcp \<Rightarrow> 'a handshake \<Rightarrow> ('s socks5_connected, error, 'a) io" where
  "run_all T (Return r) = lift_res r"
| "run_all T (Reading n k) = bindE (read_exact T n) (\<lambda>bs. run_all T (k bs))"
| "run_all T (Writing bs h) = bindE (write_all T bs) (\<lambda>_. run_all T h)"

named_theorems tree_runs \<open>what a tree does when it is run\<close>

lemma bindE_lift_Inl [simp]: "bindE (lift_res (Inl e)) f = lift_res (Inl e)"
  by (simp add: bindE_def fun_eq_iff)

lemma run_continue [tree_runs]: "run_all T (continue h f) = bindE (run_all T h) (\<lambda>x. run_all T (f x))"
  by (induction h) (auto simp: bindE_assoc split: sum.split)

lemma run_if [tree_runs]: "run_all T (if b then h else h') = (if b then run_all T h else run_all T h')"
  by simp

lemma run_sum_case [tree_runs]:
  "run_all T (case x of Inl e \<Rightarrow> h e | Inr y \<Rightarrow> h' y) = (case x of Inl e \<Rightarrow> run_all T (h e) | Inr y \<Rightarrow> run_all T (h' y))"
  by (simp split: sum.split)

lemma run_type_case [tree_runs]:
  "run_all T (case x of IPV4 \<Rightarrow> h | IPV6 \<Rightarrow> h' | DOMAIN \<Rightarrow> h'') =
     (case x of IPV4 \<Rightarrow> run_all T h | IPV6 \<Rightarrow> run_all T h' | DOMAIN \<Rightarrow> run_all T h'')"
  by (simp split: socks5_addr_type.split)

lemma run_read_into [tree_runs]: "run_all T (read_into_h buf lo hi) = read_into T buf lo hi"
  by (simp add: read_into_h_def read_into_def)

lemma lift_attempted [tree_runs]: "lift_res (attempted r) = attempt (lift_res r)"
  by (cases r rule: sum.exhaust; (cases "projl r")?) (auto simp: attempted_def split: stop.split)

lemma bindE_ret_right: "bindE m ret = m"
  by (auto simp: bindE_def fun_eq_iff split: sum.split prod.split)

lemma run_send [tree_runs]: "run_all T (send_final_response_h e a) = send_final_response T e a"
  by (simp add: send_final_response_h_def send_final_response_def tree_runs bindE_ret_right
      del: continue.simps)

lemma run_authenticate [tree_runs]: "run_all T authenticate_client_h = authenticate_client T"
  by (simp add: authenticate_client_h_def authenticate_client_def Let_def tree_runs bindE_ret_right
      del: continue.simps cong: if_cong)

lemma run_request_addr [tree_runs]: "run_all T (request_addr_h d buf) = request_addr T d buf"
  by (simp add: request_addr_h_def request_addr_def Let_def tree_runs
      del: continue.simps cong: if_cong sum.case_cong socks5_addr_type.case_cong)

lemma run_get_request [tree_runs]: "run_all T (get_request_h d) = get_request T d"
  by (simp add: get_request_h_def get_request_def Let_def tree_runs
      del: continue.simps cong: if_cong sum.case_cong)

lemma run_next_request: "run_all T (next_request_h d) = next_request T d"
  by (simp add: next_request_h_def next_request_def tree_runs)

lemma await_step_runs:
  "await_step T (h, c) = (h', c') \<Longrightarrow> run_all T h c = run_all T h' c'"
  by (cases h) (auto simp: bindE_def split: prod.splits sum.splits)

text \<open>At most how many calls are awaited.\<close>

primrec within :: "'a handshake \<Rightarrow> nat \<Rightarrow> bool" where
  "within (Return r) k \<longleftrightarrow> True"
| "within (Reading n g) k \<longleftrightarrow> (\<exists>j. k = Suc j \<and> (\<forall>bs. within (g bs) j))"
| "within (Writing bs h) k \<longleftrightarrow> (\<exists>j. k = Suc j \<and> within h j)"

lemma within_mono: "within h k \<Longrightarrow> k \<le> k' \<Longrightarrow> within h k'"
proof (induction h arbitrary: k k')
  case (Reading n g)
  then show ?case by (cases k') (auto, metis rangeI)
next
  case (Writing bs h)
  then show ?case by (cases k') auto
qed simp

lemma within_continue: "within h i \<Longrightarrow> (\<And>x. within (f x) j) \<Longrightarrow> within (continue h f) (i + j)"
  by (induction h arbitrary: i) (auto split: sum.split intro: within_mono [OF _ le_add2])

lemma within_read: "(\<And>buf. within (f buf) k) \<Longrightarrow> within (continue (read_into_h buf0 lo hi) f) (Suc k)"
  by (simp add: read_into_h_def)

lemma within_send: "(\<And>x. within (f x) k) \<Longrightarrow> within (continue (send_final_response_h e a) f) (Suc k)"
  by (simp add: send_final_response_h_def split: sum.split)

lemmas within_intros = within_read within_send

lemma within_authenticate: "within authenticate_client_h (Suc (Suc (Suc 0)))"
  unfolding authenticate_client_h_def Let_def
  by (rule within_read) (auto intro!: within_intros split: sum.split)

lemma within_request_addr: "within (request_addr_h d buf) (Suc 0)"
  unfolding request_addr_h_def Let_def
  by (auto intro!: within_intros split: sum.split socks5_addr_type.split)

lemma within_get_request: "within (get_request_h d) (Suc (Suc (Suc 0)))"
  unfolding get_request_h_def Let_def
  by (rule within_read)
    (auto intro!: within_intros within_continue [OF within_request_addr, of _ 1, simplified] split: sum.split)

lemma within_next_request: "within (next_request_h d) 6"
  unfolding next_request_h_def
  using within_continue [OF within_authenticate within_get_request] by (simp add: eval_nat_numeral)

lemma within_step: "within h k \<Longrightarrow> within (fst (await_step T (h, c))) (k - 1)"
  by (cases h) (auto split: prod.split sum.split)

lemma steps_run:
  "within h k \<Longrightarrow> (await_step T ^^ k) (h, c) = (case run_all T h c of (r, c') \<Rightarrow> (Return r, c'))"
proof (induction k arbitrary: h c)
  case 0
  then show ?case by (cases h) auto
next
  case (Suc k)
  obtain h1 c1 where step: "await_step T (h, c) = (h1, c1)" by fastforce
  with within_step [OF Suc.prems, of T c] have "within h1 k" by simp
  from Suc.IH [OF this, of c1] step await_step_runs [OF step] show ?case
    by (simp add: funpow_swap1)
qed

section \<open>A handshake that is cut off\<close>

text \<open>
  A stream that answers \<open>k\<close> calls and fails from then on. A handshake over it stops where the
  handshake is after \<open>k\<close> calls, and what is known of failed handshakes holds of it.
\<close>

definition cut_error :: io_error where
  "cut_error = io_of_kind KOther"

definition cut_tcp :: "'s tcp \<Rightarrow> ('s \<times> nat) tcp" where
  "cut_tcp T = \<lparr>
     tcp_read_exact = (\<lambda>n (s, k). case k of 0 \<Rightarrow> (Inl cut_error, (s, 0))
       | Suc k \<Rightarrow> (case tcp_read_exact T n s of (r, s') \<Rightarrow> (r, (s', k)))),
     tcp_write_all = (\<lambda>bs (s, k). case k of 0 \<Rightarrow> (Inl cut_error, (s, 0))
       | Suc k \<Rightarrow> (case tcp_write_all T bs s of (r, s') \<Rightarrow> (r, (s', k)))),
     tcp_local_addr = (\<lambda>(s, k). tcp_local_addr T s),
     tcp_peer_addr = (\<lambda>(s, k). tcp_peer_addr T s)\<rparr>"

definition with_cut :: "nat \<Rightarrow> 's socks5_connected \<Rightarrow> ('s \<times> nat) socks5_connected" where
  "with_cut k c = \<lparr>local_addr = local_addr c, remote_addr = remote_addr c,
     stream = map_option (\<lambda>s. (s, k)) (stream c)\<rparr>"

lemma cut_bytes:
  assumes "byte_stream T rcvd sent"
  shows "byte_stream (cut_tcp T) (\<lambda>(s, k). rcvd s) (\<lambda>(s, k). sent s)"
proof
  fix n s bs s' e
  show "tcp_read_exact (cut_tcp T) n s = (Inr bs, s') \<Longrightarrow> length bs = n \<and>
      (case s' of (s, k) \<Rightarrow> rcvd s) = (case s of (s, k) \<Rightarrow> rcvd s) @ bs \<and>
      (case s' of (s, k) \<Rightarrow> sent s) = (case s of (s, k) \<Rightarrow> sent s)"
    using byte_stream.read_ok [OF assms]
    by (auto simp: cut_tcp_def split: prod.splits nat.splits)
  show "tcp_read_exact (cut_tcp T) n s = (Inl e, s') \<Longrightarrow>
      (case s' of (s, k) \<Rightarrow> sent s) = (case s of (s, k) \<Rightarrow> sent s)"
    using byte_stream.read_err [OF assms]
    by (auto simp: cut_tcp_def split: prod.splits nat.splits)
next
  fix bs s u s' e
  show "tcp_write_all (cut_tcp T) bs s = (Inr u, s') \<Longrightarrow>
      (case s' of (s, k) \<Rightarrow> sent s) = (case s of (s, k) \<Rightarrow> sent s) @ bs \<and>
      (case s' of (s, k) \<Rightarrow> rcvd s) = (case s of (s, k) \<Rightarrow> rcvd s)"
    using byte_stream.write_ok [OF assms]
    by (auto simp: cut_tcp_def split: prod.splits nat.splits)
  show "tcp_write_all (cut_tcp T) bs s = (Inl e, s') \<Longrightarrow>
      \<exists>k. (case s' of (s, k) \<Rightarrow> sent s) = (case s of (s, k) \<Rightarrow> sent s) @ take k bs"
    using byte_stream.write_err [OF assms]
    by (auto simp: cut_tcp_def split: prod.splits nat.splits intro: exI [of _ 0])
qed

lemma cut_calls:
  "read_exact (cut_tcp T) n (with_cut (Suc k) c) = (case read_exact T n c of (r, c') \<Rightarrow> (r, with_cut (if stream c = None then Suc k else k) c'))"
  "write_all (cut_tcp T) bs (with_cut (Suc k) c) = (case write_all T bs c of (r, c') \<Rightarrow> (r, with_cut (if stream c = None then Suc k else k) c'))"
  "stream c \<noteq> None \<Longrightarrow> read_exact (cut_tcp T) n (with_cut 0 c) = (Inl (Raise (Io cut_error)), with_cut 0 c)"
  "stream c \<noteq> None \<Longrightarrow> write_all (cut_tcp T) bs (with_cut 0 c) = (Inl (Raise (Io cut_error)), with_cut 0 c)"
  by (auto simp: read_exact_def write_all_def with_cut_def cut_tcp_def split: option.split prod.split)

lemma calls_keep_stream:
  "stream c \<noteq> None \<Longrightarrow> read_exact T n c = (r, c') \<Longrightarrow> stream c' \<noteq> None"
  "stream c \<noteq> None \<Longrightarrow> write_all T bs c = (r', c') \<Longrightarrow> stream c' \<noteq> None"
  by (auto simp: read_exact_def write_all_def split: prod.splits)

lemma await_steps_return [simp]: "(await_step T ^^ k) (Return r, c) = (Return r, c)"
  by (induction k) simp_all

definition result_so_far :: "'a handshake \<Rightarrow> (error, 'a) res" where
  "result_so_far h = (case h of Return r \<Rightarrow> r | _ \<Rightarrow> Inl (Raise (Io cut_error)))"

lemma cut_run:
  "stream c \<noteq> None \<Longrightarrow> (await_step T ^^ k) (h, c) = (h', c') \<Longrightarrow>
   \<exists>j. run_all (cut_tcp T) h (with_cut k c) = (result_so_far h', with_cut j c')"
proof (induction k arbitrary: h c)
  case 0
  then show ?case by (cases h) (auto simp: result_so_far_def bindE_def cut_calls)
next
  case (Suc k)
  show ?case
  proof (cases h)
    case (Return r)
    with Suc.prems(2) show ?thesis by (auto simp: result_so_far_def funpow_swap1)
  next
    case (Reading n g)
    obtain r c1 where call: "read_exact T n c = (r, c1)" by fastforce
    from calls_keep_stream(1) [OF Suc.prems(1) call] Suc.IH [of c1] Suc.prems Reading call show ?thesis
      by (cases r) (auto simp: bindE_def cut_calls funpow_swap1 result_so_far_def)
  next
    case (Writing bs g)
    obtain r c1 where call: "write_all T bs c = (r, c1)" by fastforce
    from calls_keep_stream(2) [OF Suc.prems(1) call] Suc.IH [of c1] Suc.prems Writing call show ?thesis
      by (cases r) (auto simp: bindE_def cut_calls funpow_swap1 result_so_far_def)
  qed
qed

lemma seen_with_cut [simp]: "seen_on (\<lambda>(s, k). f s) (with_cut k c) = seen_on f c"
  by (simp add: seen_on_def with_cut_def split: option.split)

text \<open>What a client can have been sent at some moment of its handshake.\<close>

definition said :: "u8 list \<Rightarrow> bool" where
  "said u \<longleftrightarrow> prefix u [SOCKS5_PROTOCOL, SOCKS5_NO_ACCEPTABLE_METHOD] \<or>
     prefix u [SOCKS5_PROTOCOL, SOCKS5_NO_AUTH] \<or>
     (\<exists>v. u = [SOCKS5_PROTOCOL, SOCKS5_NO_AUTH] @ v \<and> rejection v)"

lemma no_stream_no_call: "stream c = None \<Longrightarrow> snd ((await_step T ^^ k) (h, c)) = c"
proof (induction k arbitrary: h)
  case (Suc k)
  then show ?case
    by (cases h) (simp_all add: funpow_swap1 read_exact_def write_all_def)
qed simp

lemma handshake_said:
  assumes "byte_stream T rcvd sent" and "(await_step T ^^ k) (next_request_h d, c) = (h, c')"
  shows "\<exists>u. seen_on sent c' = seen_on sent c @ u \<and> said u"
proof (cases "stream c = None")
  case True
  with no_stream_no_call [where c = c and T = T and k = k and h = "next_request_h d"] assms(2) show ?thesis by (simp add: said_def)
next
  case False
  obtain j where run: "next_request (cut_tcp T) d (with_cut k c) = (result_so_far h, with_cut j c')"
    using cut_run [OF False assms(2)] by (auto simp: run_next_request)
  note cut = cut_bytes [OF assms(1)]
  show ?thesis
  proof (cases "result_so_far h")
    case (Inl e)
    with byte_stream.next_request_fail [OF cut, of d "with_cut k c"] run show ?thesis
      by (fastforce simp: said_def socks5_consts)
  next
    case (Inr r)
    with byte_stream.next_request_ok [OF cut, of d "with_cut k c"] run show ?thesis
      by (fastforce simp: said_def socks5_consts)
  qed
qed

section \<open>Properties\<close>

text \<open>
  C15. The handshake is its awaited calls: after at most six of them the handshake is over, and the
  result and the connection are those of \<open>next_request\<close>, whatever the stream does.
\<close>

theorem handshake_in_six_calls:
  "(await_step T ^^ 6) (next_request_h debug_on, c) =
     (case next_request T debug_on c of (r, c') \<Rightarrow> (Return r, c'))"
  using steps_run [OF within_next_request, of T debug_on c] by (simp add: run_next_request)

text \<open>
  C16. What a client has been sent at every moment of its handshake, between any two awaited calls
  and whatever failed: a prefix of the method refusal, or the method choice followed by a prefix
  of one of the two refusals of a request. The success reply is never written.
\<close>

theorem handshake_output:
  assumes "byte_stream T rcvd sent" and "(await_step T ^^ k) (next_request_h debug_on, c) = (h, c')"
  shows "\<exists>u. seen_on sent c' = seen_on sent c @ u \<and> said u"
  by (rule handshake_said [OF assms])

theorem handshake_output_witness:
  "\<exists>h c'. (await_step mem_tcp ^^ 2) (next_request_h False, client_of (greeting [2])) = (h, c') \<and>
    said (seen_on ms_out c')"
proof -
  obtain h c' where run: "(await_step mem_tcp ^^ 2) (next_request_h False, client_of (greeting [2])) = (h, c')"
    by fastforce
  from handshake_output [OF mem_bytes this] run show ?thesis
    by (simp add: seen_on_def)
qed

end
