(* ===== verification/Running_Program.thy ===== *)
theory Running_Program
  imports Program Relay_Steps Handshake_Steps
begin

text \<open>
  The running program once more (\<open>Program\<close>), with every awaited call a step of its own: each
  read and write of a handshake (\<open>Handshake_Steps\<close>), each poll of a relay's copies
  (\<open>Relay_Steps\<close>), the connect, the reply before the relay, and the accept. Between two steps of
  a task all others may run. A task whose call never completes takes no further step.
\<close>

section \<open>The steps\<close>

text \<open>How far the handshake and the relay of each task have come; a missing one has not begun.\<close>

record ('h, 'c, 'b, 's) under_way =
  handshakes :: "nat \<rightharpoonup> 'h \<times> 'c"
  copyings :: "nat \<rightharpoonup> ('b, 's) bicopy_state"

definition nothing_under_way :: "('h, 'c, 'b, 's) under_way" where
  "nothing_under_way = \<lparr>handshakes = Map.empty, copyings = Map.empty\<rparr>"

definition at_or :: "'a \<Rightarrow> 'a option \<Rightarrow> 'a" where
  "at_or x m = (case m of None \<Rightarrow> x | Some y \<Rightarrow> y)"

lemma at_or_simps [simp]: "at_or x None = x" "at_or x (Some y) = y"
  by (simp_all add: at_or_def)

fun between_calls :: "'s phase \<Rightarrow> bool" where
  "between_calls Start = False"
| "between_calls (Relaying _ _) = False"
| "between_calls _ = True"

text \<open>
  \<open>call\<close> is the step of a task (\<open>task_step\<close>), used between the handshake and the relay only;
  \<open>h0\<close> is a handshake that has not begun, \<open>hstep\<close> one of its calls.
\<close>

inductive await_program_step ::
  "('l, error, 'c) io \<Rightarrow> outgoing_config \<Rightarrow>
   ('s phase \<times> ('c, 's, 'n) task \<Rightarrow> 's phase \<times> ('c, 's, 'n) task) \<Rightarrow>
   req_addr handshake \<Rightarrow> (req_addr handshake \<times> 'c \<Rightarrow> req_addr handshake \<times> 'c) \<Rightarrow>
   (('b, 's) bicopy_state \<Rightarrow> ('b, 's) bicopy_state \<Rightarrow> bool) \<Rightarrow>
   ('l, 'c, 's, 'n) program \<times> (req_addr handshake, 'c, 'b, 's) under_way \<Rightarrow>
   ('l, 'c, 's, 'n) program \<times> (req_addr handshake, 'c, 'b, 's) under_way \<Rightarrow> bool"
  for nxt cfg call h0 hstep rstep where
  calls: "program_step nxt call P a P' \<Longrightarrow>
    (\<forall>i. a = Run i \<longrightarrow> between_calls (phase (jobs P ! i))) \<Longrightarrow>
    await_program_step nxt cfg call h0 hstep rstep (P, W) (P', W)"
| shakes: "running P = Some l \<Longrightarrow> i < length (jobs P) \<Longrightarrow> phase (jobs P ! i) = Start \<Longrightarrow>
    await_program_step nxt cfg call h0 hstep rstep (P, W)
      (P, W\<lparr>handshakes := (handshakes W)(i \<mapsto>
        hstep (at_or (h0, jclient (jobs P ! i)) (handshakes W i)))\<rparr>)"
| requests: "phase (jobs P ! i) = Start \<Longrightarrow>
    at_or (h0, jclient (jobs P ! i)) (handshakes W i) = (Return r, c) \<Longrightarrow>
    program_step nxt (\<lambda>(_, t). after_request cfg (r, c) t) P (Run i) P' \<Longrightarrow>
    await_program_step nxt cfg call h0 hstep rstep (P, W) (P', W)"
| relays: "running P = Some l \<Longrightarrow> i < length (jobs P) \<Longrightarrow> phase (jobs P ! i) = Relaying inc out \<Longrightarrow>
    rstep (at_or (Asking inc out) (copyings W i)) b \<Longrightarrow>
    await_program_step nxt cfg call h0 hstep rstep (P, W) (P, W\<lparr>copyings := (copyings W)(i \<mapsto> b)\<rparr>)"
| returns: "phase (jobs P ! i) = Relaying inc out \<Longrightarrow>
    at_or (Asking inc out) (copyings W i) = Returned r i1 o1 \<Longrightarrow>
    program_step nxt (\<lambda>(_, t). after_relay (r, i1, o1) t) P (Run i) P' \<Longrightarrow>
    await_program_step nxt cfg call h0 hstep rstep (P, W) (P', W)"

text \<open>
  The program with SOCKS5 clients and direct outgoing connections. The one-step copies of
  \<open>task_step\<close> are not used between handshake and relay (\<open>step_no_relay\<close>), so any will do.
\<close>

definition no_copies :: "'s copies" where
  "no_copies f g i o' = ((Inl (io_of_kind KOther), Inl (io_of_kind KOther)), i, o')"

abbreviation await_steps ::
  "('l, 's) listener_ops \<Rightarrow> 's tcp \<Rightarrow> bool \<Rightarrow> ('b, 's) copier \<Rightarrow> ('s \<Rightarrow> 's \<Rightarrow> bool) \<Rightarrow> 'b \<Rightarrow>
   target_os \<Rightarrow> ('n, 's) network \<Rightarrow> outgoing_config \<Rightarrow>
   ('l socks5_incoming, 's socks5_connected, 's, 'n) program \<times>
     (req_addr handshake, 's socks5_connected, 'b, 's) under_way \<Rightarrow>
   ('l socks5_incoming, 's socks5_connected, 's, 'n) program \<times>
     (req_addr handshake, 's socks5_connected, 'b, 's) under_way \<Rightarrow> bool" where
  "await_steps L T d copy peer fresh os N cfg \<equiv>
     await_program_step (next_client L) cfg (serve_step T d no_copies os N cfg) (next_request_h d)
       (await_step T) (bicopy_step T copy peer fresh)"

definition await_run ::
  "('l, 's) listener_ops \<Rightarrow> 's tcp \<Rightarrow> bool \<Rightarrow> ('b, 's) copier \<Rightarrow> ('s \<Rightarrow> 's \<Rightarrow> bool) \<Rightarrow> 'b \<Rightarrow>
   target_os \<Rightarrow> ('n, 's) network \<Rightarrow> outgoing_config \<Rightarrow> 'l socks5_incoming \<Rightarrow> 'n \<Rightarrow>
   ('l socks5_incoming, 's socks5_connected, 's, 'n) program \<times>
     (req_addr handshake, 's socks5_connected, 'b, 's) under_way \<Rightarrow> bool" where
  "await_run L T d copy peer fresh os N cfg l n =
     (await_steps L T d copy peer fresh os N cfg)\<^sup>*\<^sup>* (program_start l n, nothing_under_way)"

section \<open>Steps of one task in a row\<close>

text \<open>Everything but task \<open>i\<close> is as it was.\<close>

definition others_kept ::
  "nat \<Rightarrow> ('l, 'c, 's, 'n) program \<Rightarrow> ('l, 'c, 's, 'n) program \<Rightarrow> bool" where
  "others_kept i P P' \<longleftrightarrow> running P' = running P \<and> arrived P' = arrived P \<and>
     length (jobs P') = length (jobs P) \<and> (\<forall>j. j \<noteq> i \<longrightarrow> jobs P' ! j = jobs P ! j)"

lemma others_kept_refl [simp]: "others_kept i P P"
  by (simp add: others_kept_def)

lemma others_kept_trans: "others_kept i P P' \<Longrightarrow> others_kept i P' P'' \<Longrightarrow> others_kept i P P''"
  by (simp add: others_kept_def)

definition only_task ::
  "nat \<Rightarrow> ('l, 'c, 's, 'n) program \<times> ('h, 'c, 'b, 's) under_way \<Rightarrow>
   ('l, 'c, 's, 'n) program \<times> ('h, 'c, 'b, 's) under_way \<Rightarrow> bool" where
  "only_task i PW PW' \<longleftrightarrow> others_kept i (fst PW) (fst PW') \<and>
     (\<forall>j. j \<noteq> i \<longrightarrow> handshakes (snd PW') j = handshakes (snd PW) j \<and> copyings (snd PW') j = copyings (snd PW) j)"

text \<open>Runs in which every step is one of task \<open>i\<close>.\<close>

definition own_steps ::
  "nat \<Rightarrow> (('l, 'c, 's, 'n) program \<times> ('h, 'c, 'b, 's) under_way \<Rightarrow>
     ('l, 'c, 's, 'n) program \<times> ('h, 'c, 'b, 's) under_way \<Rightarrow> bool) \<Rightarrow>
   ('l, 'c, 's, 'n) program \<times> ('h, 'c, 'b, 's) under_way \<Rightarrow>
   ('l, 'c, 's, 'n) program \<times> ('h, 'c, 'b, 's) under_way \<Rightarrow> bool" where
  "own_steps i step = (\<lambda>s s'. step s s' \<and> only_task i s s')\<^sup>*\<^sup>*"

lemma own_steps_refl [simp]: "own_steps i step s s"
  by (simp add: own_steps_def)

lemma own_steps_step: "own_steps i step s s' \<Longrightarrow> step s' s'' \<Longrightarrow> only_task i s' s'' \<Longrightarrow> own_steps i step s s''"
  unfolding own_steps_def by (rule rtranclp.rtrancl_into_rtrancl) simp_all

lemma own_steps_trans: "own_steps i step s s' \<Longrightarrow> own_steps i step s' s'' \<Longrightarrow> own_steps i step s s''"
  unfolding own_steps_def by (rule rtranclp_trans)

lemma own_steps_run:
  assumes "own_steps i step s s'"
  shows "step\<^sup>*\<^sup>* s s'"
  using assms unfolding own_steps_def
  by (induction rule: rtranclp_induct) (auto intro: rtranclp.rtrancl_into_rtrancl)

lemma own_steps_kept:
  assumes "own_steps i step (P, W) (P', W')"
  shows "others_kept i P P'"
proof -
  have "others_kept i (fst s) (fst s')" if "own_steps i step s s'" for s s'
    using that unfolding own_steps_def
    by (induction rule: rtranclp_induct) (auto simp: only_task_def intro: others_kept_trans)
  from this [OF assms] show ?thesis by simp
qed

lemma await_shakes:
  assumes "running P = Some l" and "i < length (jobs P)" and "phase (jobs P ! i) = Start"
    and "at_or (h0, jclient (jobs P ! i)) (handshakes W i) = hc"
  shows "\<exists>W'. at_or (h0, jclient (jobs P ! i)) (handshakes W' i) = (hstep ^^ k) hc \<and> copyings W' = copyings W \<and>
    own_steps i (await_program_step nxt cfg call h0 hstep rstep) (P, W) (P, W')"
proof (induction k)
  case 0
  with assms(4) show ?case by auto
next
  case (Suc k)
  then obtain W' where W': "at_or (h0, jclient (jobs P ! i)) (handshakes W' i) = (hstep ^^ k) hc" "copyings W' = copyings W"
    "own_steps i (await_program_step nxt cfg call h0 hstep rstep) (P, W) (P, W')"
    by blast
  let ?W = "W'\<lparr>handshakes := (handshakes W')(i \<mapsto> hstep ((hstep ^^ k) hc))\<rparr>"
  have "await_program_step nxt cfg call h0 hstep rstep (P, W') (P, ?W)"
    using await_program_step.shakes [where W = W' and hstep = hstep and ?h0.0 = h0, OF assms(1-3)] W'(1) by simp
  with W'(3) have "own_steps i (await_program_step nxt cfg call h0 hstep rstep) (P, W) (P, ?W)"
    by (rule own_steps_step) (simp add: only_task_def)
  with W'(2) show ?case by (intro exI [of _ ?W] conjI) simp_all
qed

lemma await_relays:
  assumes "running P = Some l" and "i < length (jobs P)" and "phase (jobs P ! i) = Relaying inc out"
    and "rstep\<^sup>*\<^sup>* (at_or (Asking inc out) (copyings W i)) b"
  shows "\<exists>W'. at_or (Asking inc out) (copyings W' i) = b \<and>
    own_steps i (await_program_step nxt cfg call h0 hstep rstep) (P, W) (P, W')"
  using assms(4)
proof (induction rule: rtranclp_induct)
  case (step b b')
  then obtain W' where W': "at_or (Asking inc out) (copyings W' i) = b"
    "own_steps i (await_program_step nxt cfg call h0 hstep rstep) (P, W) (P, W')" by blast
  let ?W = "W'\<lparr>copyings := (copyings W')(i \<mapsto> b')\<rparr>"
  from W'(1) step(2) have "await_program_step nxt cfg call h0 hstep rstep (P, W') (P, ?W)"
    by (intro await_program_step.relays [OF assms(1-3)]) simp
  with W'(2) have "own_steps i (await_program_step nxt cfg call h0 hstep rstep) (P, W) (P, ?W)"
    by (rule own_steps_step) (simp add: only_task_def)
  then show ?case by (intro exI [of _ ?W] conjI) (simp, assumption)
qed (intro exI [of _ W] conjI refl own_steps_refl)

section \<open>Every task on its own\<close>

lemma step_no_relay:
  "\<forall>inc out. p \<noteq> Relaying inc out \<Longrightarrow>
   task_step IC T copies process cfg (p, t) = task_step IC T copies' process cfg (p, t)"
  by (cases p) auto

lemma no_copies_stream: "byte_stream T rcvd sent \<Longrightarrow> relay_stream T rcvd sent no_copies"
  by (auto simp: relay_stream_def relay_stream_axioms_def no_copies_def)

lemma no_copies_drains: "drains rcvd unread no_copies"
  by (simp add: drains_def no_copies_def drained_def)

text \<open>The state of one task: its client as accepted, its job, its handshake and its relay.\<close>

type_synonym ('c, 's, 'h, 'b) task_state =
  "'c \<times> ('c, 's) job \<times> ('h \<times> 'c) option \<times> ('b, 's) bicopy_state option"

text \<open>
  What holds of a task until it has ended: it is where it would be alone, whatever its copies
  will do; its handshake has come to where it is call by call, its relay step by step, and its
  client has been told what its phase says. When it has ended, some copies that keep their
  contract would have done the same.
\<close>

fun part_ok ::
  "(req_addr handshake \<times> 'c \<Rightarrow> req_addr handshake \<times> 'c) \<Rightarrow> req_addr handshake \<Rightarrow>
   ('s \<Rightarrow> 's \<Rightarrow> ('b, 's) bicopy_state \<Rightarrow> bool) \<Rightarrow> 's phase \<Rightarrow> 'c \<Rightarrow> (req_addr handshake \<times> 'c) option \<Rightarrow>
   ('b, 's) bicopy_state option \<Rightarrow> bool" where
  "part_ok hstep h0 rok Start c h m \<longleftrightarrow> (\<exists>k. (hstep ^^ k) (h0, c) = at_or (h0, c) h) \<and> m = None"
| "part_ok hstep h0 rok (Relaying inc out) c h m \<longleftrightarrow> rok inc out (at_or (Asking inc out) m)"
| "part_ok hstep h0 rok p c h m \<longleftrightarrow> m = None"

definition task_ok ::
  "'s tcp \<Rightarrow> bool \<Rightarrow> ('s \<Rightarrow> u8 list) \<Rightarrow> ('s \<Rightarrow> u8 list) \<Rightarrow> ('s \<Rightarrow> u8 list) \<Rightarrow> ('b \<Rightarrow> u8 list) \<Rightarrow> nat \<Rightarrow>
   ('s copies \<Rightarrow> 's phase \<times> ('s socks5_connected, 's, 'n) task \<Rightarrow>
     's phase \<times> ('s socks5_connected, 's, 'n) task) \<Rightarrow>
   ('s socks5_connected, 's, req_addr handshake, 'b) task_state \<Rightarrow> bool" where
  "task_ok T d rcvd sent unread held cap step \<tau> \<longleftrightarrow> (case \<tau> of (c, j, h, m) \<Rightarrow>
     if final (phase j)
     then \<exists>copies. relay_stream T rcvd sent copies \<and> drains rcvd unread copies \<and> alone (step copies) c j
     else (\<forall>copies. alone (step copies) c j) \<and> jrelays j = [] \<and> told sent c j \<and>
       part_ok (await_step T) (next_request_h d) (bicopy_ok T rcvd sent unread held cap) (phase j) (jclient j) h m)"

lemma task_ok_new: "task_ok T d rcvd sent unread held cap step (c, new_job c, None, None)"
  by (simp add: task_ok_def alone_new told_def) (auto simp: new_job_def intro: exI [of _ 0])

lemma told_step:
  assumes "byte_stream T rcvd sent" and "told sent c j" and "jrelays j = []" and "\<not> final (phase j)"
    and "serve_step T d copies os N cfg (phase j, job_task j n) = (p, t)"
  shows "told sent c (task_job (p, t)) \<and> (final p \<or> jrelays (task_job (p, t)) = [])"
  using incoming_client_contract.step_ok [OF socks5_contract [OF assms(1), of d],
      where p = "phase j" and t = "job_task j n" and p' = p and t' = t] assms(2-5)
  by (auto simp: told_def relays_ok_def job_task_def task_job_def socks5_consts)

lemma task_ok_step:
  fixes N :: "('n, 's) network" and n :: 'n
  assumes "byte_stream T rcvd sent"
    and ok: "task_ok T d rcvd sent unread held cap (\<lambda>copies. serve_step T d copies os N cfg) (c, j, h, m)"
    and "m = None" and "\<forall>inc out. phase j \<noteq> Relaying inc out" and "\<not> final (phase j)"
    and "serve_step T d copies os N cfg (phase j, job_task j n) = (p, t)"
  shows "task_ok T d rcvd sent unread held cap (\<lambda>copies. serve_step T d copies os N cfg) (c, task_job (p, t), h', m)"
proof -
  have step: "serve_step T d copies' os N cfg (phase j, job_task j n) = (p, t)" for copies'
    using assms(6) step_no_relay [OF assms(4)] by metis
  from ok assms(5) have a: "alone (serve_step T d copies' os N cfg) c j" for copies'
    by (simp add: task_ok_def)
  from step_alone [OF a step] have "alone (serve_step T d copies' os N cfg) c (task_job (p, t))" for copies' .
  moreover have "told sent c (task_job (p, t))" "final p \<or> jrelays (task_job (p, t)) = []"
    using told_step [OF assms(1) _ _ assms(5,6)] ok assms(5) by (auto simp: task_ok_def)
  moreover have "p \<noteq> Start"
    using assms(4,6) by (cases "phase j") (auto simp: after_defs Let_def split: sum.splits stop.splits prod.splits)
  ultimately show ?thesis
    using no_copies_stream [OF assms(1)] no_copies_drains assms(3) by (cases p) (auto simp: task_ok_def)
qed

lemma task_ok_shake:
  assumes "task_ok T d rcvd sent unread held cap step (c, j, h, m)" and "phase j = Start"
  shows "task_ok T d rcvd sent unread held cap step
    (c, j, Some (await_step T (at_or (next_request_h d, jclient j) h)), m)"
proof -
  from assms obtain k where "(await_step T ^^ k) (next_request_h d, jclient j) =
      at_or (next_request_h d, jclient j) h"
    by (auto simp: task_ok_def)
  then have "(await_step T ^^ Suc k) (next_request_h d, jclient j) =
      await_step T (at_or (next_request_h d, jclient j) h)"
    by simp
  with assms show ?thesis
    unfolding task_ok_def by (auto simp del: funpow.simps)
qed

lemma awaited_runs: "(await_step T ^^ k) (h, c) = (h', c') \<Longrightarrow> run_all T h c = run_all T h' c'"
proof (induction k arbitrary: h c)
  case (Suc k)
  obtain h1 c1 where "await_step T (h, c) = (h1, c1)" by fastforce
  with Suc await_step_runs [OF this] show ?case by (simp add: funpow_swap1)
qed simp

lemma task_ok_request:
  fixes N :: "('n, 's) network" and n :: 'n
  assumes "byte_stream T rcvd sent"
    and ok: "task_ok T d rcvd sent unread held cap (\<lambda>copies. serve_step T d copies os N cfg) (c, j, h, m)"
    and "phase j = Start" and "at_or (next_request_h d, jclient j) h = (Return r, c1)"
    and "after_request cfg (r, c1) (job_task j n) = (p, t)"
  shows "task_ok T d rcvd sent unread held cap (\<lambda>copies. serve_step T d copies os N cfg) (c, task_job (p, t), h, m)"
proof (rule task_ok_step [OF assms(1) ok])
  from ok assms(3,4) obtain k where "(await_step T ^^ k) (next_request_h d, jclient j) = (Return r, c1)"
    by (auto simp: task_ok_def)
  from awaited_runs [OF this] have "next_request T d (jclient j) = (r, c1)"
    by (simp add: run_next_request)
  with assms(3,5) show "serve_step T d no_copies os N cfg (phase j, job_task j n) = (p, t)"
    by (simp add: job_task_def)
qed (use ok assms(3) in \<open>auto simp: task_ok_def\<close>)

lemma task_ok_relay:
  assumes "draining_copy copy peer rcvd sent held fresh cap told_end unread"
    and "task_ok T d rcvd sent unread held cap step (c, j, h, m)" and "phase j = Relaying inc out"
    and "bicopy_step T copy peer fresh (at_or (Asking inc out) m) b"
  shows "task_ok T d rcvd sent unread held cap step (c, j, h, Some b)"
  using assms(2,3) draining_copy.bicopy_step_ok [OF assms(1,4)] by (simp add: task_ok_def)

lemma task_ok_return:
  fixes N :: "('n, 's) network" and n :: 'n
  assumes "byte_stream T rcvd sent"
    and "task_ok T d rcvd sent unread held cap (\<lambda>copies. serve_step T d copies os N cfg) (c, j, h, m)"
    and "phase j = Relaying inc out" and "at_or (Asking inc out) m = Returned r i1 o1"
    and "after_relay (r, i1, o1) (job_task j n) = (p, t)"
  shows "task_ok T d rcvd sent unread held cap (\<lambda>copies. serve_step T d copies os N cfg) (c, task_job (p, t), h', m')"
proof -
  from assms(2-4) have a: "alone (serve_step T d copies os N cfg) c j" for copies
    by (simp add: task_ok_def)
  from assms(2-4) have "bicopy_ok T rcvd sent unread held cap inc out (Returned r i1 o1)"
    by (simp add: task_ok_def)
  from bicopy_returned [OF assms(1) this] obtain copies where
    c: "relay_stream T rcvd sent copies" "drains rcvd unread copies" "bicopy T copies inc out = (r, i1, o1)"
    by blast
  with assms(3,5) have "serve_step T d copies os N cfg (phase j, job_task j n) = (p, t)" by simp
  from step_alone [OF a this] c(1,2) assms(5) show ?thesis
    by (auto simp: task_ok_def after_defs Let_def split: sum.splits stop.splits)
qed

section \<open>All tasks\<close>

text \<open>A task that does not exist has nothing under way.\<close>

definition all_tasks ::
  "(('c, 's, 'h, 'b) task_state \<Rightarrow> bool) \<Rightarrow>
   ('l, 'c, 's, 'n) program \<times> ('h, 'c, 'b, 's) under_way \<Rightarrow> bool" where
  "all_tasks Q PW \<longleftrightarrow> (case PW of (P, W) \<Rightarrow>
     length (arrived P) = length (jobs P) \<and>
     (\<forall>i \<ge> length (jobs P). handshakes W i = None \<and> copyings W i = None) \<and>
     (\<forall>i < length (jobs P). Q (arrived P ! i, jobs P ! i, handshakes W i, copyings W i)))"

lemma all_tasks_job:
  assumes "program_step nxt step P (Run i) P'" and "all_tasks Q (P, W)"
    and "\<And>p t. \<not> final (phase (jobs P ! i)) \<Longrightarrow>
      Q (arrived P ! i, jobs P ! i, handshakes W i, copyings W i) \<Longrightarrow>
      step (phase (jobs P ! i), job_task (jobs P ! i) (shared P)) = (p, t) \<Longrightarrow>
      Q (arrived P ! i, task_job (p, t), handshakes W i, copyings W i)"
  shows "all_tasks Q (P', W)"
  using assms(1)
proof (cases rule: program_step.cases)
  case (run l p t)
  with assms(2,3) show ?thesis by (auto simp: all_tasks_def nth_list_update)
qed

lemma await_step_ok:
  assumes "draining_copy copy peer rcvd sent held fresh cap told_end unread" and "byte_stream T rcvd sent"
    and "await_program_step nxt cfg (serve_step T d no_copies os N cfg) (next_request_h d)
      (await_step T) (bicopy_step T copy peer fresh) PW PW'"
    and all: "all_tasks (task_ok T d rcvd sent unread held cap (\<lambda>copies. serve_step T d copies os N cfg)) PW"
  shows "all_tasks (task_ok T d rcvd sent unread held cap (\<lambda>copies. serve_step T d copies os N cfg)) PW'"
  using assms(3)
proof (cases rule: await_program_step.cases)
  case (calls P a P' W)
  from calls(3) show ?thesis
  proof (cases rule: program_step.cases)
    case (accept l c l')
    with all calls show ?thesis
      by (auto simp: all_tasks_def nth_append less_Suc_eq task_ok_new)
  next
    case (run l i p t)
    show ?thesis
      unfolding calls(2)
    proof (rule all_tasks_job [OF calls(3) [unfolded run(1)]])
      fix p t
      assume a: "\<not> final (phase (jobs P ! i))"
        "task_ok T d rcvd sent unread held cap (\<lambda>copies. serve_step T d copies os N cfg)
          (arrived P ! i, jobs P ! i, handshakes W i, copyings W i)"
        "serve_step T d no_copies os N cfg (phase (jobs P ! i), job_task (jobs P ! i) (shared P)) = (p, t)"
      with calls(4) run(1) show "task_ok T d rcvd sent unread held cap (\<lambda>copies. serve_step T d copies os N cfg)
          (arrived P ! i, task_job (p, t), handshakes W i, copyings W i)"
        by (intro task_ok_step [OF assms(2) a(2) _ _ a(1,3)]; cases "phase (jobs P ! i)")
          (auto simp: task_ok_def)
    qed (use all calls in simp)
  qed (use all calls in \<open>auto simp: all_tasks_def\<close>)
next
  case (shakes P l i W)
  with all have "task_ok T d rcvd sent unread held cap (\<lambda>copies. serve_step T d copies os N cfg)
      (arrived P ! i, jobs P ! i, handshakes W i, copyings W i)"
    by (simp add: all_tasks_def)
  from task_ok_shake [OF this shakes(5)] all shakes show ?thesis
    by (auto simp: all_tasks_def)
next
  case (requests P i W r c P')
  show ?thesis
    unfolding requests(2)
    using task_ok_request [OF assms(2) _ requests(3,4)] all requests(1)
    by (intro all_tasks_job [OF requests(5)]) auto
next
  case (relays P l i inc out W b)
  with all have "task_ok T d rcvd sent unread held cap (\<lambda>copies. serve_step T d copies os N cfg)
      (arrived P ! i, jobs P ! i, handshakes W i, copyings W i)"
    by (simp add: all_tasks_def)
  from task_ok_relay [OF assms(1) this relays(5,6)] all relays show ?thesis
    by (auto simp: all_tasks_def)
next
  case (returns P i inc out W r i1 o1 P')
  show ?thesis
    unfolding returns(2)
    using task_ok_return [OF assms(2) _ returns(3,4)] all returns(1)
    by (intro all_tasks_job [OF returns(5)]) auto
qed

lemma await_run_ok:
  assumes "draining_copy copy peer rcvd sent held fresh cap told_end unread" and "byte_stream T rcvd sent"
    and "await_run L T d copy peer fresh os N cfg l n PW"
  shows "all_tasks (task_ok T d rcvd sent unread held cap (\<lambda>copies. serve_step T d copies os N cfg)) PW"
  using assms(3) unfolding await_run_def
proof (induction rule: rtranclp_induct)
  case base
  then show ?case by (simp add: all_tasks_def program_start_def nothing_under_way_def)
next
  case (step PW PW')
  then show ?case by (auto intro: await_step_ok [OF assms(1,2)])
qed

lemma await_run_serves:
  assumes "draining_copy copy peer rcvd sent held fresh cap told_end unread" and "byte_stream T rcvd sent"
    and "await_run L T d copy peer fresh os N cfg l n (P, W)"
    and "i < length (jobs P)" and "final (phase (jobs P ! i))"
  obtains copies m m' where "relay_stream T rcvd sent copies" and "drains rcvd unread copies"
    and "serve T d copies os N cfg (job_task (new_job (arrived P ! i)) m) =
      (case phase (jobs P ! i) of Panicked \<Rightarrow> Inl Panic | _ \<Rightarrow> Inr (), job_task (jobs P ! i) m')"
proof -
  from await_run_ok [OF assms(1-3)] assms(4)
  have "task_ok T d rcvd sent unread held cap (\<lambda>copies. serve_step T d copies os N cfg)
      (arrived P ! i, jobs P ! i, handshakes W i, copyings W i)"
    by (simp add: all_tasks_def)
  with assms(5) obtain copies where
    c: "relay_stream T rcvd sent copies" "drains rcvd unread copies"
      "alone (serve_step T d copies os N cfg) (arrived P ! i) (jobs P ! i)"
    by (auto simp: task_ok_def)
  from alone_serves [OF c(3) assms(5)] c(1,2) show ?thesis using that by blast
qed

end
