(* ===== verification/Running_Correct.thy ===== *)
theory Running_Correct
  imports Running_Program
begin

text \<open>
  What holds in every run of \<open>Running_Program\<close>, however the awaited calls of its tasks are
  interleaved, and a run in memory from the accept of a client to the end of its relay.
\<close>

section \<open>A complete run\<close>

definition one_job ::
  "'l \<Rightarrow> 'c \<Rightarrow> 's phase \<times> ('c, 's, 'n) task \<Rightarrow> ('l, 'c, 's, 'n) program" where
  "one_job l c pt = \<lparr>running = Some l, shared = net (snd pt), jobs = [task_job pt], arrived = [c]\<rparr>"

lemma one_job_step:
  assumes "\<not> final p" and "step (p, t) = (p', t')"
  shows "program_step nxt step (one_job l c (p, t)) (Run 0) (one_job l c (p', t'))"
  using program_step.run [where P = "one_job l c (p, t)" and i = 0 and nxt = nxt and step = step
      and p = p' and t = t'] assms
  by (simp add: one_job_def)

lemma await_call:
  assumes "between_calls p" and "\<not> final p" and "call (p, t) = (p', t')"
  shows "await_program_step nxt cfg call h0 hstep rstep (one_job l c (p, t), W) (one_job l c (p', t'), W)"
  using await_program_step.calls [OF one_job_step [where step = call, OF assms(2,3)]] assms(1)
  by (simp add: one_job_def)

lemma await_request:
  assumes "at_or (h0, client t) (handshakes W 0) = (Return r, c1)" and "after_request cfg (r, c1) t = (p', t')"
  shows "await_program_step nxt cfg call h0 hstep rstep (one_job l c (Start, t), W) (one_job l c (p', t'), W)"
proof -
  have "program_step nxt (\<lambda>(_, t). after_request cfg (r, c1) t) (one_job l c (Start, t)) (Run 0) (one_job l c (p', t'))"
    using assms(2) by (intro one_job_step) simp_all
  from await_program_step.requests [where i = 0 and W = W, OF _ _ this] assms(1) show ?thesis
    by (simp add: one_job_def task_job_def)
qed

lemma await_return:
  assumes "at_or (Asking inc out) (copyings W 0) = Returned (Inr ()) i1 o1"
  shows "await_program_step nxt cfg call h0 hstep rstep (one_job l c (Relaying inc out, t), W)
    (one_job l c (Done, t\<lparr>relays := relays t @ [(i1, o1)]\<rparr>), W)"
proof -
  have "program_step nxt (\<lambda>(_, t). after_relay (Inr (), i1, o1) t) (one_job l c (Relaying inc out, t))
      (Run 0) (one_job l c (Done, t\<lparr>relays := relays t @ [(i1, o1)]\<rparr>))"
    by (rule one_job_step) (simp_all add: after_relay_def)
  from await_program_step.returns [where i = 0 and W = W, OF _ assms this] show ?thesis
    by (simp add: one_job_def)
qed

lemma await_shaken:
  assumes "next_client L l = (Inr c, l')" and "next_request T d c = (r, c1)"
  shows "\<exists>W. handshakes W 0 = Some (Return r, c1) \<and> copyings W = Map.empty \<and>
    await_run L T d copy peer fresh os N cfg l n (one_job l' c (Start, job_task (new_job c) n), W)"
proof -
  let ?step = "await_program_step (next_client L) cfg (serve_step T d no_copies os N cfg) (next_request_h d)
    (await_step T) (bicopy_step T copy peer fresh)"
  let ?t = "job_task (new_job c) n"
  have "program_step (next_client L) (serve_step T d no_copies os N cfg) (program_start l n) Accept
      (one_job l' c (Start, ?t))"
    using program_step.accept [where P = "program_start l n" and nxt = "next_client L", OF _ assms(1)]
    by (simp add: program_start_def one_job_def job_task_def task_job_def new_job_def)
  then have start: "?step (program_start l n, nothing_under_way) (one_job l' c (Start, ?t), nothing_under_way)"
    by (rule await_program_step.calls) simp
  have hc: "(await_step T ^^ 6) (next_request_h d, c) = (Return r, c1)"
    using steps_run [OF within_next_request, of T d c] assms(2) by (simp add: run_next_request)
  obtain W where W: "at_or (next_request_h d, c) (handshakes W 0) = (Return r, c1)" "copyings W = Map.empty"
    and shakes: "own_steps 0 ?step (one_job l' c (Start, ?t), nothing_under_way) (one_job l' c (Start, ?t), W)"
    using await_shakes [where P = "one_job l' c (Start, ?t)" and i = 0 and W = nothing_under_way and k = 6
        and hstep = "await_step T" and ?h0.0 = "next_request_h d" and nxt = "next_client L"] hc
    by (force simp: nothing_under_way_def one_job_def task_job_def job_task_def new_job_def)
  let ?W = "W\<lparr>handshakes := (handshakes W)(0 \<mapsto> (Return r, c1))\<rparr>"
  have "?step (one_job l' c (Start, ?t), W) (one_job l' c (Start, ?t), ?W)"
    using await_program_step.shakes [where P = "one_job l' c (Start, ?t)" and i = 0 and W = W
        and nxt = "next_client L" and cfg = cfg and hstep = "await_step T" and ?h0.0 = "next_request_h d"] W(1)
    by (simp add: one_job_def task_job_def job_task_def new_job_def)
  with start own_steps_run [OF shakes] have "?step\<^sup>*\<^sup>* (program_start l n, nothing_under_way) (one_job l' c (Start, ?t), ?W)"
    by (meson rtranclp.rtrancl_into_rtrancl converse_rtranclp_into_rtranclp)
  with W(2) show ?thesis unfolding await_run_def by (intro exI [of _ ?W] conjI) simp_all
qed

lemma await_complete:
  assumes "next_client L l = (Inr c, l')" and "next_request T d c = (Inr r, c1)"
    and "after_request cfg (Inr r, c1) (job_task (new_job c) n) = (Requested r, t1)"
    and "serve_step T d no_copies os N cfg (Requested r, t1) = (Connected r out, t2)"
    and "serve_step T d no_copies os N cfg (Connected r out, t2) = (Relaying inc out, t3)"
    and "bicopy_steps T copy peer fresh (Asking inc out) (Returned (Inr ()) i1 o1)"
  shows "\<exists>W W'. await_run L T d copy peer fresh os N cfg l n (one_job l' c (Start, job_task (new_job c) n), W) \<and>
    (await_steps L T d copy peer fresh os N cfg)\<^sup>*\<^sup>* (one_job l' c (Start, job_task (new_job c) n), W)
      (one_job l' c (Done, t3\<lparr>relays := relays t3 @ [(i1, o1)]\<rparr>), W')"
proof -
  let ?step = "await_steps L T d copy peer fresh os N cfg"
  let ?t = "job_task (new_job c) n"
  obtain W where W: "handshakes W 0 = Some (Return (Inr r), c1)" "copyings W = Map.empty"
    and shaken: "await_run L T d copy peer fresh os N cfg l n (one_job l' c (Start, ?t), W)"
    using await_shaken [OF assms(1,2), where copy = copy and peer = peer and fresh = fresh and os = os
        and N = N and cfg = cfg and n = n]
    by blast
  have calls: "?step (one_job l' c (Start, ?t), W) (one_job l' c (Requested r, t1), W)"
      "?step (one_job l' c (Requested r, t1), W) (one_job l' c (Connected r out, t2), W)"
      "?step (one_job l' c (Connected r out, t2), W) (one_job l' c (Relaying inc out, t3), W)"
    using await_request [of "next_request_h d" ?t W "Inr r" c1 cfg "Requested r" t1] W(1) assms(3-5)
    by (simp_all add: await_call)
  obtain W' where W': "at_or (Asking inc out) (copyings W' 0) = Returned (Inr ()) i1 o1"
    "own_steps 0 ?step (one_job l' c (Relaying inc out, t3), W) (one_job l' c (Relaying inc out, t3), W')"
    using await_relays [where P = "one_job l' c (Relaying inc out, t3)" and i = 0 and W = W
        and nxt = "next_client L" and rstep = "bicopy_step T copy peer fresh"] assms(6) W(2)
    by (force simp: one_job_def task_job_def)
  from calls own_steps_run [OF W'(2)] have "?step\<^sup>*\<^sup>* (one_job l' c (Start, ?t), W) (one_job l' c (Relaying inc out, t3), W')"
    by (meson rtranclp_trans r_into_rtranclp)
  from rtranclp.rtrancl_into_rtrancl [OF this await_return [OF W'(1)]] shaken show ?thesis by blast
qed

text \<open>In memory: a client that asks for \<open>[::1]\<close>, port 80, sends 1, 2 and gets 7, 8.\<close>

abbreviation (input) local80 :: req_addr where
  "local80 \<equiv> IP (socket_addr (V6 (Ipv6 0 0 0 0 0 0 0 1)) 80)"

definition asking_client :: "(io_error + mem_stream \<times> sock_addr) list socks5_incoming" where
  "asking_client = one_client\<lparr>listener := [Inr (mem_of (ask6 80), remote_addr (client_of (ask6 80)))]\<rparr>"

definition asking_stream :: "u8 list \<Rightarrow> u8 list \<Rightarrow> u8 list \<Rightarrow> mem_stream" where
  "asking_stream i r w = \<lparr>ms_in = i, ms_read = greeting [0] @ request local80 @ r,
     ms_out = [5, 0] @ reply_wire S5Success local80 @ w\<rparr>"

lemma asking_accept:
  "next_client list_listener asking_client = (Inr (client_of (ask6 80)), asking_client\<lparr>listener := []\<rparr>)"
  by (simp add: next_client_def list_listener_def asking_client_def one_client_def client_of_def)

lemma asking_request:
  "next_request mem_tcp False (client_of (ask6 80)) =
     (Inr local80, mem_conn (client_of (ask6 80)) [1, 2] (greeting [0] @ request local80) [5, 0])"
  using mem_next_request [of "[0]" local80 False "client_of (ask6 80)" "[1, 2]" "[]" "[]"]
    client_of_conn [of "ask6 80"]
  by (simp add: ask6_def socks5_consts)

lemma asking_shaken:
  "\<exists>W l'. handshakes W 0 =
      Some (Return (Inr local80), mem_conn (client_of (ask6 80)) [1, 2] (greeting [0] @ request local80) [5, 0]) \<and>
    await_run list_listener mem_tcp False mem_copy peer (0, []) Linux small_net direct_cfg asking_client
      (0 :: nat) (one_job l' (client_of (ask6 80)) (Start, job_task (new_job (client_of (ask6 80))) 0), W)"
  using await_shaken [OF asking_accept asking_request, of mem_copy peer "(0, [])" Linux small_net direct_cfg "0 :: nat"]
  by blast

lemma mem_asked: "ask_addrs mem_tcp s d = Inr (from_addr (socket_addr (V4 (Ipv4 127 0 0 1)) 50000))"
  by (simp add: ask_addrs_def l_addr_def p_addr_def)

lemma asking_relay:
  "bicopy_steps mem_tcp mem_copy peer (0, []) (Asking (asking_stream [1, 2] [] []) (mem_of [7, 8]))
     (Returned (Inr ()) (asking_stream [] [1, 2] [7, 8]) \<lparr>ms_in = [], ms_read = [7, 8], ms_out = [1, 2]\<rparr>)"
proof -
  let ?c = "poll_copies mem_copy [True, False, True, False, True, False]
    (start_copying (0, []) (asking_stream [1, 2] [] []) (mem_of [7, 8]))"
  have c: "?c = \<lparr>c_in = asking_stream [] [1, 2] [7, 8],
      c_out = \<lparr>ms_in = [], ms_read = [7, 8], ms_out = [1, 2]\<rparr>,
      buf1 = (2, []), buf2 = (2, []), res1 = Some (Inr 2), res2 = Some (Inr 2)\<rparr>"
    by (simp add: start_copying_def poll_copy_def mem_copy_def mem_of_def asking_stream_def)
  from scheduled_joined [where ?r1.0 = "Inr 2" and ?r2.0 = "Inr 2", OF mem_asked c] show ?thesis
    by (simp add: relay_result_def)
qed

lemma asking_served:
  "\<exists>l' t W W'. await_run list_listener mem_tcp False mem_copy peer (0, []) Linux small_net direct_cfg
      asking_client (0 :: nat) (one_job l' (client_of (ask6 80)) (Start, job_task (new_job (client_of (ask6 80))) 0), W) \<and>
    (await_steps list_listener mem_tcp False mem_copy peer (0, []) Linux small_net direct_cfg)\<^sup>*\<^sup>*
      (one_job l' (client_of (ask6 80)) (Start, job_task (new_job (client_of (ask6 80))) 0), W)
      (one_job l' (client_of (ask6 80)) (Done, t), W') \<and>
    relays t = [(asking_stream [] [1, 2] [7, 8], \<lparr>ms_in = [], ms_read = [7, 8], ms_out = [1, 2]\<rparr>)]"
proof -
  let ?step = "serve_step mem_tcp False no_copies Linux small_net direct_cfg"
  let ?c = "client_of (ask6 80)"
  let ?c1 = "mem_conn ?c [1, 2] (greeting [0] @ request local80) [5, 0]"
  let ?t = "\<lambda>c n. \<lparr>client = c, net = n :: nat, log = [], relays = []\<rparr>"
  have "after_request direct_cfg (Inr local80, ?c1) (job_task (new_job ?c) 0) = (Requested local80, ?t ?c1 0)"
    by (simp add: after_request_def new_job_def job_task_def get_outgoing_def direct_cfg_def)
  moreover have "?step (Requested local80, ?t ?c1 0) = (Connected local80 (mem_of [7, 8]), ?t ?c1 1)"
    by (simp add: process_request_impl_def resolve_local_def small_net_def socket_addr_def)
  moreover have "?step (Connected local80 (mem_of [7, 8]), ?t ?c1 1) =
      (Relaying (asking_stream [1, 2] [] []) (mem_of [7, 8]), ?t (?c\<lparr>stream := None\<rparr>) 1)"
    by (simp add: mem_ready asking_stream_def)
  ultimately show ?thesis
    using await_complete [OF asking_accept asking_request _ _ _ asking_relay] by fastforce
qed

lemma asking_run:
  "\<exists>l' t W. await_run list_listener mem_tcp False mem_copy peer (0, []) Linux small_net direct_cfg
      asking_client (0 :: nat) (one_job l' (client_of (ask6 80)) (Done, t), W) \<and>
    relays t = [(asking_stream [] [1, 2] [7, 8], \<lparr>ms_in = [], ms_read = [7, 8], ms_out = [1, 2]\<rparr>)]"
  using asking_served [of peer] unfolding await_run_def by (meson rtranclp_trans)

definition told_at ::
  "('s \<Rightarrow> u8 list) \<Rightarrow> 's socks5_connected \<Rightarrow> ('s socks5_connected, 's) job \<Rightarrow>
   ('h \<times> 's socks5_connected) option \<Rightarrow> bool" where
  "told_at sent c j h \<longleftrightarrow>
     (if phase j = Start
      then \<exists>u. seen_on sent (case h of None \<Rightarrow> jclient j | Some (_, c') \<Rightarrow> c') = seen_on sent c @ u \<and> said u
      else told sent c j)"

lemma task_ok_told:
  assumes "byte_stream T rcvd sent" and "task_ok T d rcvd sent unread held cap step (c, j, h, m)"
  shows "told_at sent c j h"
proof (cases "phase j = Start")
  case True
  with assms(2) obtain k where k: "(await_step T ^^ k) (next_request_h d, c) = at_or (next_request_h d, c) h"
    and c: "jclient j = c"
    by (auto simp: task_ok_def told_def)
  obtain h' c' where h: "at_or (next_request_h d, c) h = (h', c')" by fastforce
  from handshake_said [OF assms(1), of k d c h' c'] k h c True show ?thesis
    by (cases h) (auto simp: told_at_def)
next
  case False
  with assms(2) show ?thesis
    by (cases "phase j") (auto simp: told_at_def task_ok_def told_def)
qed

text \<open>A task alone, up to any of its calls.\<close>

lemma steps_told:
  assumes "byte_stream T rcvd sent"
  shows "(serve_step T d copies os N cfg ^^ k) (Start, job_task (new_job c) n) = (p, t) \<Longrightarrow>
    told sent c (task_job (p, t)) \<and> relayed_once T copies sent c (task_job (p, t))"
proof (induction k arbitrary: p t)
  case 0
  then show ?case
    by (auto simp: told_def relayed_once_def relays_ok_def task_job_def job_task_def new_job_def)
next
  case (Suc k)
  obtain p1 t1 where k: "(serve_step T d copies os N cfg ^^ k) (Start, job_task (new_job c) n) = (p1, t1)"
    by fastforce
  with Suc.prems have step: "serve_step T d copies os N cfg (p1, t1) = (p, t)" by simp
  show ?case
  proof (cases "final p1")
    case True
    with step Suc.IH [OF k] show ?thesis by simp
  next
    case False
    with Suc.IH [OF k] step incoming_client_contract.step_ok [OF socks5_contract [OF assms, of d],
        where p = p1 and t = t1 and p' = p and t' = t]
    show ?thesis
      by (simp add: told_def relayed_once_def task_job_def socks5_consts) blast
  qed
qed

lemma alone_relayed:
  assumes "byte_stream T rcvd sent" and "alone (serve_step T d copies os N cfg) c j"
  shows "relayed_once T copies sent c j"
proof -
  from assms(2) obtain k m m' where
    "(serve_step T d copies os N cfg ^^ k) (Start, job_task (new_job c) m) = (phase j, job_task j m')"
    unfolding alone_def by blast
  from steps_told [OF assms(1) this] show ?thesis
    by (simp add: relayed_once_def task_job_def job_task_def)
qed

lemma task_ok_relayed:
  assumes "byte_stream T rcvd sent"
    and "task_ok T d rcvd sent unread held cap (\<lambda>copies. serve_step T d copies os N cfg) (c, j, h, m)"
  shows "if final (phase j) then \<exists>copies. relay_stream T rcvd sent copies \<and> relayed_once T copies sent c j
    else jrelays j = []"
proof (cases "final (phase j)")
  case True
  with assms(2) obtain copies where
    c: "relay_stream T rcvd sent copies" "alone (serve_step T d copies os N cfg) c j"
    by (auto simp: task_ok_def)
  from True c(1) alone_relayed [OF assms(1) c(2)] show ?thesis by auto
qed (use assms(2) in \<open>simp add: task_ok_def\<close>)

text \<open>A task that has ended, for a client that can be served.\<close>

lemma finished_tunnel:
  assumes "draining_copy copy peer rcvd sent held fresh cap told_end left"
    and "scripted_stream T rcvd sent unread"
    and "await_run L T d copy peer fresh os N cfg l n (P, W)"
    and "i < length (jobs P)" and "final (phase (jobs P ! i))"
    and "stream (arrived P ! i) = Some s" and "unread s = greeting ms @ request a @ rest"
    and "length ms \<le> 255" and "SOCKS5_NO_AUTH \<in> set ms" and "requestable a"
    and "out_type cfg = OutDirect"
    and "\<forall>n. \<exists>out n'. process_request_impl os N DirectOutgoing (as_parsed a) n = (Inr out, n')"
  shows "phase (jobs P ! i) = Done \<and>
    (\<exists>m n' inc out i' o''. process_request_impl os N DirectOutgoing (as_parsed a) m = (Inr out, n') \<and>
      unread inc = rest \<and> sent inc = sent s @ [5, 0] @ reply_wire S5Success (as_parsed a) \<and>
      jrelays (jobs P ! i) = [(i', o'')] \<and> relayed rcvd sent inc out i' o'' \<and>
      (jlog (jobs P ! i) = [] \<longrightarrow> delivered rcvd sent left inc out i' o''))"
proof -
  obtain copies m m' where c: "relay_stream T rcvd sent copies" "drains rcvd left copies"
    and run: "serve T d copies os N cfg (job_task (new_job (arrived P ! i)) m) =
      (case phase (jobs P ! i) of Panicked \<Rightarrow> Inl Panic | _ \<Rightarrow> Inr (), job_task (jobs P ! i) m')"
    by (rule await_run_serves [OF assms(1) scripted_stream.axioms(1) [OF assms(2)] assms(3-5)])
  from assms(12) obtain out n' where out: "process_request_impl os N DirectOutgoing (as_parsed a) m = (Inr out, n')"
    by blast
  have new: "client (job_task (new_job (arrived P ! i)) m) = arrived P ! i"
    "net (job_task (new_job (arrived P ! i)) m) = m" "log (job_task (new_job (arrived P ! i)) m) = []"
    "relays (job_task (new_job (arrived P ! i)) m) = []"
    by (simp_all add: job_task_def new_job_def)
  from tunnel_run [OF c(1) assms(2), of "job_task (new_job (arrived P ! i)) m" s ms a rest cfg os N out n' d]
    assms(6-11) out run assms(5) bicopy_drained [OF _ c]
  show ?thesis
    unfolding new by (cases "phase (jobs P ! i)") (fastforce simp: job_task_def)+
qed

section \<open>Properties\<close>

text \<open>
  C5. Every interleaving of the awaited calls is serialisable: in any run of the program, with the
  reads and writes of all handshakes, the connects and the polls of all copies in any order, a
  task that has ended has done what \<open>handle_client\<close> does in one go for its client alone, with
  some pair of copies that keeps its contract.
\<close>

theorem awaited_tasks_serialise:
  assumes "copy_future copy peer rcvd sent held fresh cap told_end" and "byte_stream T rcvd sent"
    and "await_run L T d copy peer fresh os N cfg l n (P, W)"
    and "i < length (jobs P)" and "final (phase (jobs P ! i))"
  shows "\<exists>copies m m'. relay_stream T rcvd sent copies \<and>
    serve T d copies os N cfg (job_task (new_job (arrived P ! i)) m) =
      (case phase (jobs P ! i) of Panicked \<Rightarrow> Inl Panic | _ \<Rightarrow> Inr (), job_task (jobs P ! i) m')"
  by (rule await_run_serves [OF copy_future.drains_nothing [OF assms(1)] assms(2-)]) blast

theorem awaited_tasks_serialise_witness:
  "\<exists>copies m t. relay_stream mem_tcp ms_read ms_out copies \<and>
    serve mem_tcp False copies Linux small_net direct_cfg (job_task (new_job (client_of (ask6 80))) m) =
      (Inr (), t) \<and>
    relays t = [(asking_stream [] [1, 2] [7, 8], \<lparr>ms_in = [], ms_read = [7, 8], ms_out = [1, 2]\<rparr>)]"
proof -
  obtain l' t W where "await_run list_listener mem_tcp False mem_copy mem_sends (0, []) Linux small_net
      direct_cfg asking_client (0 :: nat) (one_job l' (client_of (ask6 80)) (Done, t), W)"
    and t: "relays t = [(asking_stream [] [1, 2] [7, 8], \<lparr>ms_in = [], ms_read = [7, 8], ms_out = [1, 2]\<rparr>)]"
    using asking_run [of mem_sends] by blast
  from awaited_tasks_serialise [OF mem_copies.copy_future_axioms mem_bytes this(1), of 0] t
  show ?thesis by (force simp: one_job_def task_job_def job_task_def)
qed

text \<open>
  C6. What every client has been sent, at every moment of every run of the program, between any
  two awaited calls of any tasks and over any byte stream: during its handshake at most the
  method choice and the refusals (\<open>said\<close>), while it is connected exactly the method choice,
  and the stream it is relayed on the complete success reply. So a client whose task is dropped
  when an accept fails has not been told of a success that did not happen. A task relays at
  most once, and then on a stream that had been sent exactly the two replies.
\<close>

theorem clients_told_in_time:
  assumes "copy_future copy peer rcvd sent held fresh cap told_end" and "byte_stream T rcvd sent"
    and "await_run L T d copy peer fresh os N cfg l n (P, W)" and "i < length (jobs P)"
  shows "told_at sent (arrived P ! i) (jobs P ! i) (handshakes W i) \<and>
    (if final (phase (jobs P ! i))
     then \<exists>copies. relay_stream T rcvd sent copies \<and> relayed_once T copies sent (arrived P ! i) (jobs P ! i)
     else jrelays (jobs P ! i) = [])"
proof -
  from await_run_ok [OF copy_future.drains_nothing [OF assms(1)] assms(2,3)] assms(4)
  have ok: "task_ok T d rcvd sent (\<lambda>_. []) held cap (\<lambda>copies. serve_step T d copies os N cfg)
      (arrived P ! i, jobs P ! i, handshakes W i, copyings W i)"
    by (simp add: all_tasks_def)
  show ?thesis by (intro conjI task_ok_told [OF assms(2) ok] task_ok_relayed [OF assms(2) ok])
qed

theorem clients_told_in_time_witness:
  "\<exists>h. told_at ms_out (client_of (ask6 80)) (new_job (client_of (ask6 80))) (Some h) \<and>
    fst h = Return (Inr local80)"
proof -
  let ?h = "(Return (Inr local80), mem_conn (client_of (ask6 80)) [1, 2] (greeting [0] @ request local80) [5, 0])"
  obtain W l' where W: "handshakes W 0 = Some ?h"
    and run: "await_run list_listener mem_tcp False mem_copy mem_sends (0, []) Linux small_net direct_cfg
      asking_client (0 :: nat) (one_job l' (client_of (ask6 80)) (Start, job_task (new_job (client_of (ask6 80))) 0), W)"
    using asking_shaken [of mem_sends] by blast
  from clients_told_in_time [OF mem_copies.copy_future_axioms mem_bytes run, of 0] W
  show ?thesis by (intro exI [of _ ?h]) (simp add: one_job_def job_task_def task_job_def new_job_def)
qed

text \<open>
  C3. The tunnel in the running program: whatever else the program does, and however its steps
  and the polls of its copies are interleaved, a task that has ended and whose client offered
  "no authentication" and asked for an address that can always be connected to has sent the
  client the two replies and has relayed, once, between exactly what the client sent after its
  request and a new connection to that address: each side was sent a prefix of what the
  other sent, and everything when no error was logged.
\<close>

theorem running_tunnel_is_transparent:
  assumes "copy_future copy peer rcvd sent held fresh cap told_end"
    and "scripted_stream T rcvd sent unread"
    and "await_run L T d copy peer fresh os N cfg l n (P, W)"
    and "i < length (jobs P)" and "final (phase (jobs P ! i))"
    and "stream (arrived P ! i) = Some s" and "unread s = greeting ms @ request a @ rest"
    and "length ms \<le> 255" and "SOCKS5_NO_AUTH \<in> set ms" and "requestable a"
    and "out_type cfg = OutDirect"
    and "\<forall>n. \<exists>out n'. process_request_impl os N DirectOutgoing (as_parsed a) n = (Inr out, n')"
  shows "phase (jobs P ! i) = Done \<and>
    (\<exists>m n' inc out i' o''. process_request_impl os N DirectOutgoing (as_parsed a) m = (Inr out, n') \<and>
      unread inc = rest \<and> sent inc = sent s @ [5, 0] @ reply_wire S5Success (as_parsed a) \<and>
      jrelays (jobs P ! i) = [(i', o'')] \<and> relayed rcvd sent inc out i' o'' \<and>
      (jlog (jobs P ! i) = [] \<longrightarrow> relayed_all rcvd sent inc out i' o''))"
proof -
  from finished_tunnel [OF copy_future.drains_nothing [OF assms(1)] assms(2-)]
  obtain m n' inc out i' o'' where "phase (jobs P ! i) = Done"
    "process_request_impl os N DirectOutgoing (as_parsed a) m = (Inr out, n')" "unread inc = rest"
    "sent inc = sent s @ [5, 0] @ reply_wire S5Success (as_parsed a)"
    "jrelays (jobs P ! i) = [(i', o'')]" "relayed rcvd sent inc out i' o''"
    "jlog (jobs P ! i) = [] \<longrightarrow> delivered rcvd sent (\<lambda>_. []) inc out i' o''" by blast
  then show ?thesis
    by (intro conjI exI [of _ m] exI [of _ n'] exI [of _ inc] exI [of _ out] exI [of _ i'] exI [of _ o''])
      (auto dest: delivered_all)
qed

theorem running_tunnel_is_transparent_witness:
  "\<exists>inc. ms_in inc = [1, 2] \<and> ms_out inc = [5, 0] @ reply_wire S5Success local80 \<and>
    relayed ms_read ms_out inc (mem_of [7, 8])
      (asking_stream [] [1, 2] [7, 8]) \<lparr>ms_in = [], ms_read = [7, 8], ms_out = [1, 2]\<rparr>"
proof -
  obtain l' t W where "await_run list_listener mem_tcp False mem_copy mem_sends (0, []) Linux small_net
      direct_cfg asking_client (0 :: nat) (one_job l' (client_of (ask6 80)) (Done, t), W)"
    and t: "relays t = [(asking_stream [] [1, 2] [7, 8], \<lparr>ms_in = [], ms_read = [7, 8], ms_out = [1, 2]\<rparr>)]"
    using asking_run [of mem_sends] by blast
  from running_tunnel_is_transparent [OF mem_copies.copy_future_axioms mem_scripted this(1), of 0
      "mem_of (ask6 80)" "[0]" local80 "[1, 2]"] t
  show ?thesis
    by (force simp: one_job_def task_job_def ask6_def socks5_consts process_request_impl_def
        resolve_local_def small_net_def socket_addr_def)
qed

end
