(* ===== verification/Task_Progress.thy ===== *)
theory Task_Progress
  imports Running_Correct
begin

text \<open>
  No task waits for another: from any state of the running program, a task comes to its end by
  its own awaited calls and polls alone, when its copies end by themselves.
\<close>

section \<open>One task\<close>

text \<open>A copy that is polled until it returns.\<close>

inductive copy_ends :: "('b, 's) copier \<Rightarrow> 'b \<Rightarrow> 's \<Rightarrow> 's \<Rightarrow> bool" for copy where
  now: "copy b s d = (Ready r, b', s', d') \<Longrightarrow> copy_ends copy b s d"
| later: "copy b s d = (Pending, b', s', d') \<Longrightarrow> copy_ends copy b' s' d' \<Longrightarrow> copy_ends copy b s d"

definition with_job :: "nat \<Rightarrow> 's phase \<times> ('c, 's, 'n) task \<Rightarrow> ('l, 'c, 's, 'n) program \<Rightarrow> ('l, 'c, 's, 'n) program" where
  "with_job i pt P = P\<lparr>shared := net (snd pt), jobs := (jobs P)[i := task_job pt]\<rparr>"

lemma with_job_simps [simp]:
  "running (with_job i pt P) = running P" "length (jobs (with_job i pt P)) = length (jobs P)"
  "i < length (jobs P) \<Longrightarrow> jobs (with_job i pt P) ! i = task_job pt"
  by (simp_all add: with_job_def)

lemma others_with_job [simp]: "others_kept i P (with_job i pt P)"
  by (simp add: others_kept_def with_job_def)

lemma run_with_job:
  assumes "running P = Some l" and "i < length (jobs P)" and "\<not> final (phase (jobs P ! i))"
    and "step (phase (jobs P ! i), job_task (jobs P ! i) (shared P)) = pt"
  shows "program_step nxt step P (Run i) (with_job i pt P)"
  using program_step.run [where nxt = nxt and step = step and p = "fst pt" and t = "snd pt", OF assms(1-3)] assms(4)
  by (simp add: with_job_def)

lemma handshake_ends: "\<exists>k r c'. (await_step T ^^ k) (h, c) = (Return r, c')"
proof (induction h arbitrary: c)
  case (Return r)
  show ?case by (rule exI [of _ 0]) simp
next
  case (Reading n g)
  obtain r c1 where call: "read_exact T n c = (r, c1)" by fastforce
  show ?case
  proof (cases r)
    case (Inl e)
    with call show ?thesis by (intro exI [of _ 1]) simp
  next
    case (Inr bs)
    from Reading [OF rangeI, of bs c1] obtain k r' c' where "(await_step T ^^ k) (g bs, c1) = (Return r', c')"
      by blast
    with call Inr show ?thesis by (intro exI [of _ "Suc k"]) (simp add: funpow_swap1)
  qed
next
  case (Writing bs h)
  obtain r c1 where call: "write_all T bs c = (r, c1)" by fastforce
  show ?case
  proof (cases r)
    case (Inl e)
    with call show ?thesis by (intro exI [of _ 1]) simp
  next
    case (Inr u)
    from Writing [of c1] obtain k r' c' where "(await_step T ^^ k) (h, c1) = (Return r', c')" by blast
    with call Inr show ?thesis by (intro exI [of _ "Suc k"]) (simp add: funpow_swap1)
  qed
qed

lemma i2o_ends:
  assumes "copy_ends copy (buf1 c) (c_in c) (c_out c)" and "res1 c = None"
  shows "\<exists>c'. bicopy_steps T copy peer fresh (Copying c) (Copying c') \<and> res1 c' \<noteq> None \<and> res2 c' = res2 c"
proof -
  have "copy_ends copy b s d \<Longrightarrow> b = buf1 c \<Longrightarrow> s = c_in c \<Longrightarrow> d = c_out c \<Longrightarrow> res1 c = None \<Longrightarrow> ?thesis" for b s d
  proof (induction arbitrary: c rule: copy_ends.induct)
    case (now b s d r b' s' d')
    let ?c = "c\<lparr>c_in := s', c_out := d', buf1 := b', res1 := Some r\<rparr>"
    from now have "bicopy_step T copy peer fresh (Copying c) (Copying ?c)"
      using bicopy_step.polls_i2o [of c copy "Ready r" b' s' d'] by simp
    then have "bicopy_steps T copy peer fresh (Copying c) (Copying ?c)" by (rule r_into_rtranclp)
    then show ?case by (intro exI [of _ ?c] conjI) simp_all
  next
    case (later b s d b' s' d')
    let ?c = "c\<lparr>c_in := s', c_out := d', buf1 := b', res1 := None\<rparr>"
    from later.IH [of ?c] obtain c' where "bicopy_steps T copy peer fresh (Copying ?c) (Copying c')"
      "res1 c' \<noteq> None" "res2 c' = res2 c"
      by auto
    moreover from later have "bicopy_step T copy peer fresh (Copying c) (Copying ?c)"
      using bicopy_step.polls_i2o [of c copy Pending b' s' d'] by simp
    ultimately show ?case by (meson converse_rtranclp_into_rtranclp)
  qed
  with assms show ?thesis by blast
qed

lemma o2i_ends:
  assumes "copy_ends copy (buf2 c) (c_out c) (c_in c)" and "res2 c = None"
  shows "\<exists>c'. bicopy_steps T copy peer fresh (Copying c) (Copying c') \<and> res2 c' \<noteq> None \<and> res1 c' = res1 c"
proof -
  have "copy_ends copy b s d \<Longrightarrow> b = buf2 c \<Longrightarrow> s = c_out c \<Longrightarrow> d = c_in c \<Longrightarrow> res2 c = None \<Longrightarrow> ?thesis" for b s d
  proof (induction arbitrary: c rule: copy_ends.induct)
    case (now b s d r b' s' d')
    let ?c = "c\<lparr>c_in := d', c_out := s', buf2 := b', res2 := Some r\<rparr>"
    from now have "bicopy_step T copy peer fresh (Copying c) (Copying ?c)"
      using bicopy_step.polls_o2i [of c copy "Ready r" b' s' d'] by simp
    then have "bicopy_steps T copy peer fresh (Copying c) (Copying ?c)" by (rule r_into_rtranclp)
    then show ?case by (intro exI [of _ ?c] conjI) simp_all
  next
    case (later b s d b' s' d')
    let ?c = "c\<lparr>c_in := d', c_out := s', buf2 := b', res2 := None\<rparr>"
    from later.IH [of ?c] obtain c' where "bicopy_steps T copy peer fresh (Copying ?c) (Copying c')"
      "res2 c' \<noteq> None" "res1 c' = res1 c"
      by auto
    moreover from later have "bicopy_step T copy peer fresh (Copying c) (Copying ?c)"
      using bicopy_step.polls_o2i [of c copy Pending b' s' d'] by simp
    ultimately show ?case by (meson converse_rtranclp_into_rtranclp)
  qed
  with assms show ?thesis by blast
qed

lemma relay_ends:
  assumes "\<And>b s d. copy_ends copy b s d"
  shows "\<exists>r i' o''. bicopy_steps T copy peer fresh b (Returned r i' o'')"
proof -
  have copying: "\<exists>r i' o''. bicopy_steps T copy peer fresh (Copying c) (Returned r i' o'')" for c
  proof -
    obtain c1 where c1: "bicopy_steps T copy peer fresh (Copying c) (Copying c1)" "res1 c1 \<noteq> None"
      using i2o_ends [OF assms] by (cases "res1 c = None") blast+
    obtain c2 where c2: "bicopy_steps T copy peer fresh (Copying c1) (Copying c2)" "res1 c2 \<noteq> None" "res2 c2 \<noteq> None"
      using o2i_ends [OF assms] c1(2) by (cases "res2 c1 = None") (metis, blast)
    then obtain r1 r2 where "res1 c2 = Some r1" "res2 c2 = Some r2" by blast
    from bicopy_step.joined [OF this] c1(1) c2(1) show ?thesis
      by (meson rtranclp.rtrancl_into_rtrancl rtranclp_trans)
  qed
  show ?thesis
  proof (cases b)
    case (Asking i o')
    show ?thesis
    proof (cases "ask_addrs T i o'")
      case (Inl e)
      with Asking show ?thesis using r_into_rtranclp [of "bicopy_step T copy peer fresh", OF bicopy_step.refused [OF Inl]] by blast
    next
      case (Inr a)
      with Asking show ?thesis
        using bicopy_step.begins [OF Inr, of copy peer fresh] copying [of "start_copying fresh i o'"]
        by (blast intro: converse_rtranclp_into_rtranclp)
    qed
  qed (use copying in blast)+
qed

section \<open>A task in the program\<close>

lemma request_made:
  assumes "running P = Some l" and "i < length (jobs P)" and "phase (jobs P ! i) = Start"
  shows "\<exists>P' W'. own_steps i (await_program_step nxt cfg call h0 (await_step T) rstep) (P, W) (P', W') \<and>
    calls_left (phase (jobs P' ! i)) < calls_left (phase (jobs P ! i))"
proof -
  obtain h c where hc: "at_or (h0, jclient (jobs P ! i)) (handshakes W i) = (h, c)" by fastforce
  obtain k r c' where k: "(await_step T ^^ k) (h, c) = (Return r, c')" using handshake_ends by blast
  obtain W' where W': "at_or (h0, jclient (jobs P ! i)) (handshakes W' i) = (Return r, c')"
    "own_steps i (await_program_step nxt cfg call h0 (await_step T) rstep) (P, W) (P, W')"
    using await_shakes [where hstep = "await_step T" and k = k, OF assms hc] k by metis
  let ?pt = "after_request cfg (r, c') (job_task (jobs P ! i) (shared P))"
  have "program_step nxt (\<lambda>(_, t). after_request cfg (r, c') t) P (Run i) (with_job i ?pt P)"
    using assms by (intro run_with_job) simp_all
  from own_steps_step [OF W'(2) await_program_step.requests [OF assms(3) W'(1) this]]
  have "own_steps i (await_program_step nxt cfg call h0 (await_step T) rstep) (P, W) (with_job i ?pt P, W')"
    by (simp add: only_task_def)
  moreover have "calls_left (fst ?pt) < 4"
    by (auto simp: after_defs split: sum.split stop.split)
  ultimately show ?thesis using assms by (intro exI conjI) (assumption, simp_all)
qed

lemma relay_made:
  assumes "running P = Some l" and "i < length (jobs P)" and "phase (jobs P ! i) = Relaying inc out"
    and "\<And>b s d. copy_ends copy b s d"
  shows "\<exists>P' W'. own_steps i (await_program_step nxt cfg call h0 hstep (bicopy_step T copy peer fresh)) (P, W) (P', W') \<and>
    calls_left (phase (jobs P' ! i)) < calls_left (phase (jobs P ! i))"
proof -
  obtain r i1 o1 where "bicopy_steps T copy peer fresh (at_or (Asking inc out) (copyings W i)) (Returned r i1 o1)"
    using relay_ends [OF assms(4)] by blast
  from await_relays [OF assms(1-3) this] obtain W' where
    W': "at_or (Asking inc out) (copyings W' i) = Returned r i1 o1"
    "own_steps i (await_program_step nxt cfg call h0 hstep (bicopy_step T copy peer fresh)) (P, W) (P, W')"
    by blast
  let ?pt = "after_relay (r, i1, o1) (job_task (jobs P ! i) (shared P))"
  have "program_step nxt (\<lambda>(_, t). after_relay (r, i1, o1) t) P (Run i) (with_job i ?pt P)"
    using assms by (intro run_with_job) simp_all
  from own_steps_step [OF W'(2) await_program_step.returns [OF assms(3) W'(1) this]]
  have "own_steps i (await_program_step nxt cfg call h0 hstep (bicopy_step T copy peer fresh)) (P, W) (with_job i ?pt P, W')"
    by (simp add: only_task_def)
  moreover have "calls_left (fst ?pt) < 1"
    by (auto simp: after_defs Let_def split: sum.split stop.split)
  ultimately show ?thesis using assms by (intro exI conjI) (assumption, simp_all)
qed

lemma call_made:
  assumes "running P = Some l" and "i < length (jobs P)" and "between_calls (phase (jobs P ! i))"
    and "\<not> final (phase (jobs P ! i))"
  shows "\<exists>P' W'. own_steps i (await_program_step nxt cfg (task_step IC T copies process cfg) h0 hstep rstep) (P, W) (P', W') \<and>
    calls_left (phase (jobs P' ! i)) < calls_left (phase (jobs P ! i))"
proof -
  let ?step = "task_step IC T copies process cfg"
  let ?pt = "?step (phase (jobs P ! i), job_task (jobs P ! i) (shared P))"
  have "program_step nxt ?step P (Run i) (with_job i ?pt P)"
    by (rule run_with_job [OF assms(1,2,4) refl])
  from await_program_step.calls [OF this] assms(3)
  have "await_program_step nxt cfg ?step h0 hstep rstep (P, W) (with_job i ?pt P, W)" by simp
  then have "own_steps i (await_program_step nxt cfg ?step h0 hstep rstep) (P, W) (with_job i ?pt P, W)"
    by (rule own_steps_step [OF own_steps_refl]) (simp add: only_task_def)
  with step_calls_left [OF assms(4)] show ?thesis
    using assms(2) by (intro exI conjI) (assumption, simp_all)
qed

lemma task_ends:
  assumes "\<And>b s d. copy_ends copy b s d"
    and "running P = Some l" and "i < length (jobs P)"
  shows "\<exists>P' W'. own_steps i (await_program_step nxt cfg (task_step IC T copies process cfg) h0 (await_step T)
      (bicopy_step T copy peer fresh)) (P, W) (P', W') \<and>
    final (phase (jobs P' ! i))"
  using assms(2,3)
proof (induction "calls_left (phase (jobs P ! i))" arbitrary: P W rule: less_induct)
  case less
  let ?steps = "own_steps i (await_program_step nxt cfg (task_step IC T copies process cfg) h0 (await_step T)
      (bicopy_step T copy peer fresh))"
  show ?case
  proof (cases "final (phase (jobs P ! i))")
    case True
    then show ?thesis by (intro exI [of _ P] exI [of _ W]) simp
  next
    case False
    have "\<exists>P' W'. ?steps (P, W) (P', W') \<and>
        calls_left (phase (jobs P' ! i)) < calls_left (phase (jobs P ! i))"
    proof (cases "phase (jobs P ! i)")
      case Start
      with less.prems show ?thesis by (rule request_made)
    next
      case (Relaying inc out)
      from relay_made [OF less.prems Relaying assms(1)] show ?thesis .
    qed (use call_made [OF less.prems _ False] in auto)
    then obtain P1 W1 where 1: "?steps (P, W) (P1, W1)"
      "calls_left (phase (jobs P1 ! i)) < calls_left (phase (jobs P ! i))" by blast
    from own_steps_kept [OF 1(1)] less.prems have "running P1 = Some l" "i < length (jobs P1)" by (auto simp: others_kept_def)
    from less.hyps [OF 1(2) this, of W1] obtain P2 W2 where
      "?steps (P1, W1) (P2, W2)" "final (phase (jobs P2 ! i))" by blast
    with own_steps_trans [OF 1(1)] show ?thesis by blast
  qed
qed

section \<open>Copies that have their input\<close>

text \<open>
  \<open>quiet s\<close>: the peer of \<open>s\<close> has sent all it will send and takes what it is sent. Between two
  quiet streams every poll of a copy makes progress: it returns, or there is less \<open>left\<close> to read
  and to write. The other copy gets no more to do by what is written.
\<close>

locale quiet_copy =
  fixes copy :: "('b, 's) copier" and peer :: "'s \<Rightarrow> 's \<Rightarrow> bool"
    and left :: "'b \<Rightarrow> 's \<Rightarrow> nat" and quiet :: "'s \<Rightarrow> bool"
  assumes copy_nearer: "quiet s \<Longrightarrow> quiet d \<Longrightarrow> copy b s d = (Pending, b', s', d') \<Longrightarrow> left b' s' < left b s"
    and copy_keeps_left: "quiet s \<Longrightarrow> quiet d \<Longrightarrow> copy b s d = (p, b', s', d') \<Longrightarrow> left b2 d' \<le> left b2 d"
    and quiet_peer: "quiet s \<Longrightarrow> peer s s' \<Longrightarrow> s' = s"
begin

lemma all_quiet_ends:
  assumes "\<And>s. quiet s"
  shows "copy_ends copy b s d"
proof (induction "left b s" arbitrary: b s d rule: less_induct)
  case (less b s d)
  obtain p b' s' d' where poll: "copy b s d = (p, b', s', d')" by (cases "copy b s d")
  show ?case
  proof (cases p)
    case (Ready r)
    from copy_ends.now [of copy, OF poll [unfolded Ready]] show ?thesis .
  next
    case Pending
    note p = poll [unfolded Pending]
    from copy_ends.later [of copy, OF p less [OF copy_nearer [OF assms assms p]]] show ?thesis .
  qed
qed

end

text \<open>In memory: peers that have sent everything, and peers that have been told the end.\<close>

definition mem_left :: "nat \<times> u8 list \<Rightarrow> 'x mem_stream_scheme \<Rightarrow> nat" where
  "mem_left b s = 2 * length (ms_in s) + (if snd b = [] then 0 else 1)"

lemma mem_copy_nearer:
  "mem_copy b s d = (p, b', s', d') \<Longrightarrow>
     (\<forall>b2. mem_left b2 d' = mem_left b2 d) \<and> (p = Pending \<longrightarrow> mem_left b' s' < mem_left b s)"
  by (cases "ms_in s") (auto simp: mem_copy_def mem_left_def split: prod.splits if_splits)

interpretation mem_quiet: quiet_copy mem_copy "\<lambda>_ _. False" mem_left "\<lambda>_. True"
  by unfold_locales (auto dest: mem_copy_nearer)

interpretation peer_quiet: quiet_copy peer_copy peer_sends mem_left "\<lambda>s. ps_waits s \<and> ps_told s"
  by unfold_locales (auto simp: peer_copy_def peer_sends_def dest: mem_copy_nearer)

section \<open>Properties\<close>

lemma mem_copy_ends: "copy_ends mem_copy b s d"
  by (rule mem_quiet.all_quiet_ends) simp

text \<open>
  C7. No task waits for another: from any state of the running program, reached or not, every
  task comes to its end in a run of its own steps only, its awaited calls and the polls of its
  copies, when its copies end by themselves (their peers close). In that run no other task, no
  accept and no peer makes a step, and everything that belongs to the other tasks stays as it is;
  so no task is ever stuck.
\<close>

theorem no_task_waits_for_another:
  assumes "\<And>b s d. copy_ends copy b s d" and "running P = Some l" and "i < length (jobs P)"
  shows "\<exists>P' W'. (\<lambda>s s'. await_steps L T d copy (\<lambda>_ _. False) fresh os N cfg s s' \<and> only_task i s s')\<^sup>*\<^sup>*
      (P, W) (P', W') \<and> final (phase (jobs P' ! i))"
  using task_ends [OF assms] unfolding own_steps_def by blast

theorem no_task_waits_for_another_witness:
  "\<exists>l' W P' W'. await_run list_listener mem_tcp False mem_copy mem_sends (0, []) Linux small_net direct_cfg
      asking_client (0 :: nat) (one_job l' (client_of (ask6 80)) (Start, job_task (new_job (client_of (ask6 80))) 0), W) \<and>
    (\<lambda>s s'. await_steps list_listener mem_tcp False mem_copy (\<lambda>_ _. False) (0, []) Linux small_net direct_cfg s s' \<and>
        only_task 0 s s')\<^sup>*\<^sup>*
      (one_job l' (client_of (ask6 80)) (Start, job_task (new_job (client_of (ask6 80))) 0), W) (P', W') \<and>
    final (phase (jobs P' ! 0))"
proof -
  obtain W l' where run: "await_run list_listener mem_tcp False mem_copy mem_sends (0, []) Linux small_net direct_cfg
      asking_client (0 :: nat) (one_job l' (client_of (ask6 80)) (Start, job_task (new_job (client_of (ask6 80))) 0), W)"
    using asking_shaken [of mem_sends] by blast
  let ?P = "one_job l' (client_of (ask6 80)) (Start, job_task (new_job (client_of (ask6 80))) (0 :: nat))"
  have "running ?P = Some l'" "0 < length (jobs ?P)" by (simp_all add: one_job_def)
  from no_task_waits_for_another [where L = list_listener and T = mem_tcp and d = False and fresh = "(0, [])"
      and os = Linux and N = small_net and cfg = direct_cfg and W = W, OF mem_copy_ends this] run
  show ?thesis by blast
qed

end
