(* ===== verification/Fair_Tasks.thy ===== *)
theory Fair_Tasks
  imports Task_Progress
begin

text \<open>
  No task starves. In an infinite run of the program that is fair to a task (when the task
  can go on for ever, it does go on at some time), and in which the peers of its
  relay are done at some time, the task ends, whatever the other tasks do and however often
  they run. The run may stand still; the accept loop may stop the program.
\<close>

section \<open>One relay\<close>

text \<open>What is left to do in a relay.\<close>

definition copy_left :: "('b \<Rightarrow> 's \<Rightarrow> nat) \<Rightarrow> 'r option \<Rightarrow> 'b \<Rightarrow> 's \<Rightarrow> nat" where
  "copy_left left res b s = (if res = None then Suc (left b s) else 0)"

fun relay_left :: "('b \<Rightarrow> 's \<Rightarrow> nat) \<Rightarrow> ('b, 's) bicopy_state option \<Rightarrow> nat \<times> nat" where
  "relay_left left None = (2, 0)"
| "relay_left left (Some (Asking i o')) = (2, 0)"
| "relay_left left (Some (Copying c)) =
     (1, copy_left left (res1 c) (buf1 c) (c_in c) + copy_left left (res2 c) (buf2 c) (c_out c))"
| "relay_left left (Some (Returned r i o')) = (0, 0)"

text \<open>While the copies run, both streams are quiet.\<close>

definition relay_quiet :: "('s \<Rightarrow> bool) \<Rightarrow> ('b, 's) bicopy_state option \<Rightarrow> bool" where
  "relay_quiet quiet m \<longleftrightarrow> (\<forall>c. m = Some (Copying c) \<longrightarrow> quiet (c_in c) \<and> quiet (c_out c))"

context quiet_copy
begin

lemma relay_nearer:
  assumes "bicopy_step T copy peer fresh b b'" and "relay_quiet quiet (Some b)" and "b' \<noteq> b"
  shows "(relay_left left (Some b'), relay_left left (Some b)) \<in> less_than <*lex*> less_than"
  using assms(1)
proof (cases rule: bicopy_step.cases)
  case (polls_i2o c p b1 s d)
  with assms(2) have q: "quiet (c_in c)" "quiet (c_out c)" by (simp_all add: relay_quiet_def)
  have "copy_left left (outcome p) b1 s < copy_left left (res1 c) (buf1 c) (c_in c)"
    using copy_nearer [OF q] polls_i2o(3,4) by (cases p) (auto simp: copy_left_def)
  moreover have "copy_left left (res2 c) (buf2 c) d \<le> copy_left left (res2 c) (buf2 c) (c_out c)"
    using copy_keeps_left [OF q polls_i2o(4)] by (simp add: copy_left_def)
  ultimately show ?thesis using polls_i2o by simp
next
  case (polls_o2i c p b1 s d)
  with assms(2) have q: "quiet (c_out c)" "quiet (c_in c)" by (simp_all add: relay_quiet_def)
  have "copy_left left (outcome p) b1 s < copy_left left (res2 c) (buf2 c) (c_out c)"
    using copy_nearer [OF q] polls_o2i(3,4) by (cases p) (auto simp: copy_left_def)
  moreover have "copy_left left (res1 c) (buf1 c) d \<le> copy_left left (res1 c) (buf1 c) (c_in c)"
    using copy_keeps_left [OF q polls_o2i(4)] by (simp add: copy_left_def)
  ultimately show ?thesis using polls_o2i by simp
next
  case (peer_in c s)
  with assms(2) quiet_peer have "s = c_in c" by (simp add: relay_quiet_def)
  with peer_in assms(3) show ?thesis by simp
next
  case (peer_out c s)
  with assms(2) quiet_peer have "s = c_out c" by (simp add: relay_quiet_def)
  with peer_out assms(3) show ?thesis by simp
qed (auto simp: start_copying_def)

lemma relay_goes_on:
  assumes "relay_quiet quiet (Some b)" and "\<nexists>r i o'. b = Returned r i o'"
  shows "\<exists>b'. bicopy_step T copy peer fresh b b' \<and> b' \<noteq> b"
proof (cases b)
  case (Asking i o')
  show ?thesis
  proof (cases "ask_addrs T i o'")
    case (Inl e)
    from bicopy_step.refused [OF this, of copy peer fresh] Asking show ?thesis by blast
  next
    case (Inr a)
    from bicopy_step.begins [OF this, of copy peer fresh] Asking show ?thesis by blast
  qed
next
  case (Copying c)
  with assms(1) have q: "quiet (c_in c)" "quiet (c_out c)" by (simp_all add: relay_quiet_def)
  consider "res1 c = None" | "res2 c = None" | r1 r2 where "res1 c = Some r1" "res2 c = Some r2"
    by (cases "res1 c"; cases "res2 c") auto
  then show ?thesis
  proof cases
    case 1
    obtain p b1 s d where poll: "copy (buf1 c) (c_in c) (c_out c) = (p, b1, s, d)" by (cases "copy (buf1 c) (c_in c) (c_out c)")
    then have "c\<lparr>c_in := s, c_out := d, buf1 := b1, res1 := outcome p\<rparr> \<noteq> c"
      using copy_nearer [OF q, of "buf1 c" b1 s d] 1 by (cases p) (auto dest!: arg_cong [of _ c "\<lambda>c. (buf1 c, c_in c, res1 c)"])
    with bicopy_step.polls_i2o [of c copy, OF 1 poll] Copying show ?thesis by blast
  next
    case 2
    obtain p b1 s d where poll: "copy (buf2 c) (c_out c) (c_in c) = (p, b1, s, d)" by (cases "copy (buf2 c) (c_out c) (c_in c)")
    then have "c\<lparr>c_in := d, c_out := s, buf2 := b1, res2 := outcome p\<rparr> \<noteq> c"
      using copy_nearer [OF q(2,1), of "buf2 c" b1 s d] 2 by (cases p) (auto dest!: arg_cong [of _ c "\<lambda>c. (buf2 c, c_out c, res2 c)"])
    with bicopy_step.polls_o2i [of c copy, OF 2 poll] Copying show ?thesis by blast
  next
    case 3
    from bicopy_step.joined [OF this, of T copy peer fresh] Copying show ?thesis by blast
  qed
qed (use assms(2) in blast)

end

section \<open>Handshakes\<close>

text \<open>What is left of a handshake after a call: a part of it, or its end. This is well-founded.\<close>

definition handshake_less :: "('a handshake \<times> 'a handshake) set" where
  "handshake_less = {(h', h). (\<exists>n g bs. h = Reading n g \<and> h' = g bs) \<or> (\<exists>bs. h = Writing bs h') \<or>
     (\<exists>r. h' = Return r \<and> (\<nexists>r. h = Return r))}"

lemma handshake_less_simps [simp]:
  "(h', Return r) \<notin> handshake_less"
  "(h', Reading n g) \<in> handshake_less \<longleftrightarrow> h' \<in> range g \<or> (\<exists>r. h' = Return r)"
  "(h', Writing bs h) \<in> handshake_less \<longleftrightarrow> h' = h \<or> (\<exists>r. h' = Return r)"
  by (auto simp: handshake_less_def)

lemma handshake_acc: "h \<in> Wellfounded.acc handshake_less"
proof -
  have ret: "Return r \<in> Wellfounded.acc handshake_less" for r :: "(error, 'a) res"
    by (rule accI) simp
  show "h \<in> Wellfounded.acc handshake_less" for h :: "'a handshake"
    by (induction h) (rule ret, (rule accI, auto intro: ret)+)
qed

lemma wf_handshake_less: "wf handshake_less"
  by (intro acc_wfI allI handshake_acc)

lemma await_less:
  "(\<nexists>r. h = Return r) \<Longrightarrow> (fst (await_step T (h, c)), h) \<in> handshake_less"
  by (cases h) (auto split: prod.split sum.split)

lemma await_moves: "(\<nexists>r. h = Return r) \<Longrightarrow> await_step T (h, c) \<noteq> (h, c)"
  using await_less [of h T c] wf_handshake_less by (metis fst_conv wf_not_refl)


section \<open>Where a task is\<close>

text \<open>The own state of task \<open>i\<close>; a step moves the task when it changes this state.\<close>

definition task_at ::
  "nat \<Rightarrow> ('l, 'c, 's, 'n) program \<times> ('h, 'c, 'b, 's) under_way \<Rightarrow>
   ('c, 's) job \<times> ('h \<times> 'c) option \<times> ('b, 's) bicopy_state option" where
  "task_at i PW = (case PW of (P, W) \<Rightarrow> (jobs P ! i, handshakes W i, copyings W i))"

definition moves :: "nat \<Rightarrow> ('l, 'c, 's, 'n) program \<times> ('h, 'c, 'b, 's) under_way \<Rightarrow>
   ('l, 'c, 's, 'n) program \<times> ('h, 'c, 'b, 's) under_way \<Rightarrow> bool" where
  "moves i PW PW' \<longleftrightarrow> task_at i PW' \<noteq> task_at i PW"

text \<open>
  A task comes nearer to its end by a later phase, within its handshake by a call, and within
  its relay by a poll that makes progress.
\<close>

definition shake_less :: "(('a handshake \<times> 'c) option \<times> ('a handshake \<times> 'c) option) set" where
  "shake_less = {(m', m). (m = None \<and> m' \<noteq> None) \<or>
     (\<exists>h c h' c'. m = Some (h, c) \<and> m' = Some (h', c') \<and> (h', h) \<in> handshake_less)}"

lemma wf_shake_less: "wf shake_less"
proof -
  have "shake_less \<subseteq> inv_image (less_than <*lex*> handshake_less)
      (\<lambda>m. case m of None \<Rightarrow> (1, undefined) | Some (h, c) \<Rightarrow> (0 :: nat, h))"
    by (auto simp: shake_less_def split: option.splits)
  then show ?thesis
    by (rule wf_subset [rotated]) (intro wf_inv_image wf_lex_prod wf_less_than wf_handshake_less)
qed

lemma shake_nearer:
  assumes "m' = Some (await_step T (at_or x m))" and "m' \<noteq> m"
  shows "(m', m) \<in> shake_less"
proof (cases m)
  case (Some hc)
  obtain h c where hc: "hc = (h, c)" by fastforce
  with assms Some have "\<nexists>r. h = Return r" by auto
  from await_less [OF this, of T c] assms Some hc show ?thesis
    by (cases "await_step T (h, c)") (auto simp: shake_less_def)
qed (use assms in \<open>simp add: shake_less_def\<close>)

definition task_less :: "('b \<Rightarrow> 's \<Rightarrow> nat) \<Rightarrow>
   ((('c, 's) job \<times> ('a handshake \<times> 'c) option \<times> ('b, 's) bicopy_state option) \<times>
    (('c, 's) job \<times> ('a handshake \<times> 'c) option \<times> ('b, 's) bicopy_state option)) set" where
  "task_less left = inv_image (less_than <*lex*> shake_less <*lex*> less_than <*lex*> less_than)
     (\<lambda>(j, h, m). (calls_left (phase j), h, relay_left left m))"

lemma wf_task_less: "wf (task_less left)"
  unfolding task_less_def by (intro wf_inv_image wf_lex_prod wf_less_than wf_shake_less)

lemma call_of_job:
  assumes "program_step nxt step P (Run k) P'" and "i < length (jobs P)" and "jobs P' ! i \<noteq> jobs P ! i"
  shows "k = i \<and> jobs P' ! i = task_job (step (phase (jobs P ! i), job_task (jobs P ! i) (shared P))) \<and>
    \<not> final (phase (jobs P ! i))"
  using assms by (cases rule: program_step.cases) (auto simp: nth_list_update split: if_splits)

lemma own_step:
  assumes "await_program_step nxt cfg (task_step IC T copies process cfg) h0 hstep rstep (P, W) (P', W')"
    and "i < length (jobs P)" and "moves i (P, W) (P', W')"
  shows "calls_left (phase (jobs P' ! i)) < calls_left (phase (jobs P ! i)) \<or>
    jobs P' ! i = jobs P ! i \<and> phase (jobs P ! i) = Start \<and> copyings W' i = copyings W i \<and>
      handshakes W' i = Some (hstep (at_or (h0, jclient (jobs P ! i)) (handshakes W i))) \<or>
    jobs P' ! i = jobs P ! i \<and> handshakes W' i = handshakes W i \<and>
      (\<exists>inc out b. phase (jobs P ! i) = Relaying inc out \<and> copyings W' i = Some b \<and>
        rstep (at_or (Asking inc out) (copyings W i)) b)"
  using assms(1)
proof (cases rule: await_program_step.cases)
  case (calls a)
  from calls(2) show ?thesis
  proof (cases rule: program_step.cases)
    case (run l k p t)
    with calls assms(2,3) have "jobs P' ! i \<noteq> jobs P ! i" by (simp add: moves_def task_at_def)
    from call_of_job [OF calls(2) [unfolded run(1)] assms(2) this]
      step_calls_left [of "phase (jobs P ! i)" IC T copies process cfg "job_task (jobs P ! i) (shared P)"]
    show ?thesis by simp
  qed (use calls assms(2,3) in \<open>auto simp: moves_def task_at_def nth_append\<close>)
next
  case (shakes l k)
  with assms(3) show ?thesis by (auto simp: moves_def task_at_def split: if_splits)
next
  case (requests k r c)
  with assms(3) have "jobs P' ! i \<noteq> jobs P ! i" by (simp add: moves_def task_at_def)
  from call_of_job [OF requests(4) assms(2) this] requests
  show ?thesis by (auto simp: after_defs split: sum.split stop.split)
next
  case (relays l k inc out b)
  with assms(3) show ?thesis by (auto simp: moves_def task_at_def split: if_splits)
next
  case (returns k inc out r i1 o1)
  with assms(3) have "jobs P' ! i \<noteq> jobs P ! i" by (simp add: moves_def task_at_def)
  from call_of_job [OF returns(4) assms(2) this] returns
  show ?thesis by (auto simp: after_defs Let_def split: sum.split stop.split)
qed


lemma relay_quiet_at [simp]: "relay_quiet quiet (Some (at_or (Asking i o') m)) \<longleftrightarrow> relay_quiet quiet m"
  by (cases m) (simp_all add: relay_quiet_def)

lemma relay_left_at [simp]: "relay_left left (Some (at_or (Asking i o') m)) = relay_left left m"
  by (cases m) simp_all

lemma moves_job: "jobs P' ! i \<noteq> jobs P ! i \<Longrightarrow> moves i (P, W) (P', W')"
  by (simp add: moves_def task_at_def)

lemma job_ends:
  assumes "running P = Some l" and "i < length (jobs P)" and "\<not> final (phase (jobs P ! i))"
    and "calls_left (fst (step (phase (jobs P ! i), job_task (jobs P ! i) (shared P)))) < calls_left (phase (jobs P ! i))"
  shows "\<exists>P'. program_step nxt step P (Run i) P' \<and> moves i (P, W) (P', W)"
proof -
  let ?pt = "step (phase (jobs P ! i), job_task (jobs P ! i) (shared P))"
  have "task_job ?pt \<noteq> jobs P ! i" using assms(4) by (metis job_task_job(2) less_irrefl)
  then show ?thesis
    using run_with_job [OF assms(1-3) refl, of nxt] assms(2) by (intro exI conjI) (assumption, simp add: moves_job)
qed

context quiet_copy
begin

lemma step_goes_on:
  assumes "running P = Some l" and "i < length (jobs P)" and "\<not> final (phase (jobs P ! i))"
    and "relay_quiet quiet (copyings W i)"
  shows "\<exists>PW'. await_program_step nxt cfg (task_step IC T copies process cfg) h0 (await_step T)
    (bicopy_step T copy peer fresh) (P, W) PW' \<and> moves i (P, W) PW'"
proof -
  let ?call = "task_step IC T copies process cfg"
  have call: ?thesis if "between_calls (phase (jobs P ! i))"
  proof -
    obtain P' where "program_step nxt ?call P (Run i) P'" "moves i (P, W) (P', W)"
      using job_ends [where step = ?call and nxt = nxt and W = W, OF assms(1-3) step_calls_left [OF assms(3)]] by blast
    with await_program_step.calls [OF this(1)] that show ?thesis by blast
  qed
  show ?thesis
  proof (cases "phase (jobs P ! i)")
    case Start
    obtain h c where hc: "at_or (h0, jclient (jobs P ! i)) (handshakes W i) = (h, c)" by fastforce
    show ?thesis
    proof (cases "\<exists>r. h = Return r")
      case True
      then obtain r where "h = Return r" by blast
      note hc = hc [unfolded this]
      have "calls_left (fst (after_request cfg (r, c) (job_task (jobs P ! i) (shared P)))) < 4"
        by (auto simp: after_defs split: sum.split stop.split)
      with job_ends [OF assms(1-3), of "\<lambda>(_, t). after_request cfg (r, c) t" nxt W] Start obtain P' where
        "program_step nxt (\<lambda>(_, t). after_request cfg (r, c) t) P (Run i) P'" "moves i (P, W) (P', W)"
        by auto
      with await_program_step.requests [OF Start hc this(1)] show ?thesis by blast
    next
      case False
      with await_moves [of h T c] hc have
        "moves i (P, W) (P, W\<lparr>handshakes := (handshakes W)(i \<mapsto>
          await_step T (at_or (h0, jclient (jobs P ! i)) (handshakes W i)))\<rparr>)"
        by (cases "handshakes W i") (auto simp: moves_def task_at_def)
      with await_program_step.shakes [OF assms(1,2) Start] show ?thesis by blast
    qed
  next
    case (Relaying inc out)
    let ?b = "at_or (Asking inc out) (copyings W i)"
    show ?thesis
    proof (cases "\<exists>r i' o''. ?b = Returned r i' o''")
      case True
      then obtain r i' o'' where b: "?b = Returned r i' o''" by blast
      have "calls_left (fst (after_relay (r, i', o'') (job_task (jobs P ! i) (shared P)))) < 1"
        by (auto simp: after_defs Let_def split: sum.split stop.split)
      with job_ends [OF assms(1-3), of "\<lambda>(_, t). after_relay (r, i', o'') t" nxt W] Relaying obtain P' where
        "program_step nxt (\<lambda>(_, t). after_relay (r, i', o'') t) P (Run i) P'" "moves i (P, W) (P', W)"
        by auto
      with await_program_step.returns [OF Relaying b this(1)] show ?thesis by blast
    next
      case False
      with relay_goes_on [of ?b T fresh] assms(4) obtain b where
        b: "bicopy_step T copy peer fresh ?b b" "b \<noteq> ?b" by auto
      then have "moves i (P, W) (P, W\<lparr>copyings := (copyings W)(i \<mapsto> b)\<rparr>)"
        by (cases "copyings W i") (auto simp: moves_def task_at_def)
      with await_program_step.relays [where rstep = "bicopy_step T copy peer fresh", OF assms(1,2) Relaying b(1)]
      show ?thesis by blast
    qed
  qed (use call in auto)
qed

lemma step_nearer:
  assumes "await_program_step nxt cfg (task_step IC T copies process cfg) h0 (await_step T)
      (bicopy_step T copy peer fresh) PW PW'"
    and "i < length (jobs (fst PW))" and "relay_quiet quiet (copyings (snd PW) i)" and "moves i PW PW'"
  shows "(task_at i PW', task_at i PW) \<in> task_less left"
proof -
  obtain P W P' W' where PW: "PW = (P, W)" "PW' = (P', W')" by fastforce
  from own_step [OF assms(1) [unfolded PW], of i] assms(2,4) PW
  consider "calls_left (phase (jobs P' ! i)) < calls_left (phase (jobs P ! i))"
    | "jobs P' ! i = jobs P ! i" "copyings W' i = copyings W i" "phase (jobs P ! i) = Start"
      "handshakes W' i = Some (await_step T (at_or (h0, jclient (jobs P ! i)) (handshakes W i)))"
    | inc out b where "jobs P' ! i = jobs P ! i" "handshakes W' i = handshakes W i" "copyings W' i = Some b"
      "bicopy_step T copy peer fresh (at_or (Asking inc out) (copyings W i)) b"
    by auto
  then show ?thesis
  proof cases
    case 1
    then show ?thesis by (simp add: PW task_less_def task_at_def)
  next
    case 2
    with assms(4) have "handshakes W' i \<noteq> handshakes W i" by (simp add: PW moves_def task_at_def)
    from shake_nearer [OF 2(4) this]
    show ?thesis using 2 by (simp add: PW task_less_def task_at_def)
  next
    case 3
    then have "b \<noteq> at_or (Asking inc out) (copyings W i)"
      using assms(4) by (cases "copyings W i") (auto simp: PW moves_def task_at_def)
    with relay_nearer [OF 3(4)] assms(3)
    have "(relay_left left (Some b), relay_left left (copyings W i)) \<in> less_than <*lex*> less_than"
      by (simp add: PW)
    with 3 show ?thesis by (simp add: PW task_less_def task_at_def)
  qed
qed

end


section \<open>Infinite runs\<close>

text \<open>An infinite run may stand still at any time, for ever when there is nothing left to do.\<close>

definition goes_on :: "('x \<Rightarrow> 'x \<Rightarrow> bool) \<Rightarrow> (nat \<Rightarrow> 'x) \<Rightarrow> bool" where
  "goes_on step \<sigma> \<longleftrightarrow> (\<forall>k. \<sigma> (Suc k) = \<sigma> k \<or> step (\<sigma> k) (\<sigma> (Suc k)))"

text \<open>Weak fairness to task \<open>i\<close>.\<close>

definition fair_to ::
  "nat \<Rightarrow> (('l, 'c, 's, 'n) program \<times> ('h, 'c, 'b, 's) under_way \<Rightarrow>
     ('l, 'c, 's, 'n) program \<times> ('h, 'c, 'b, 's) under_way \<Rightarrow> bool) \<Rightarrow>
   (nat \<Rightarrow> ('l, 'c, 's, 'n) program \<times> ('h, 'c, 'b, 's) under_way) \<Rightarrow> bool" where
  "fair_to i step \<sigma> \<longleftrightarrow>
     (\<forall>k. (\<forall>m \<ge> k. \<exists>s. step (\<sigma> m) s \<and> moves i (\<sigma> m) s) \<longrightarrow> (\<exists>m \<ge> k. moves i (\<sigma> m) (\<sigma> (Suc m))))"

text \<open>A task that can go on until it is at its goal, and comes nearer each time, gets there.\<close>

lemma next_move:
  assumes "\<exists>m \<ge> k. moves i (\<sigma> m) (\<sigma> (Suc m))"
  shows "\<exists>m \<ge> k. moves i (\<sigma> m) (\<sigma> (Suc m)) \<and> task_at i (\<sigma> m) = task_at i (\<sigma> k)"
proof -
  let ?Q = "\<lambda>m. m \<ge> k \<and> moves i (\<sigma> m) (\<sigma> (Suc m))"
  let ?m = "LEAST m. ?Q m"
  from assms have m: "?Q ?m" by (metis (mono_tags, lifting) LeastI)
  have "task_at i (\<sigma> j) = task_at i (\<sigma> k)" if "k \<le> j" "j \<le> ?m" for j
    using that
  proof (induction j rule: dec_induct)
    case (step j)
    with not_less_Least [of j ?Q] show ?case by (simp add: moves_def)
  qed simp
  with m show ?thesis by blast
qed

lemma fair_reaches:
  assumes "wf R" and "goes_on step \<sigma>" and "fair_to i step \<sigma>"
    and "\<And>k. n \<le> k \<Longrightarrow> \<not> goal (\<sigma> k) \<Longrightarrow> \<exists>s. step (\<sigma> k) s \<and> moves i (\<sigma> k) s"
    and "\<And>k. n \<le> k \<Longrightarrow> step (\<sigma> k) (\<sigma> (Suc k)) \<Longrightarrow> moves i (\<sigma> k) (\<sigma> (Suc k)) \<Longrightarrow>
      (task_at i (\<sigma> (Suc k)), task_at i (\<sigma> k)) \<in> R"
  shows "\<exists>m \<ge> n. goal (\<sigma> m)"
proof (rule ccontr)
  assume no: "\<not> (\<exists>m \<ge> n. goal (\<sigma> m))"
  have "False" if "n \<le> k" for k
    using assms(1) that
  proof (induction "task_at i (\<sigma> k)" arbitrary: k rule: wf_induct_rule)
    case less
    with no assms(4) have "\<forall>m \<ge> k. \<exists>s. step (\<sigma> m) s \<and> moves i (\<sigma> m) s" by (meson le_trans)
    with assms(3) have "\<exists>m \<ge> k. moves i (\<sigma> m) (\<sigma> (Suc m))" by (simp add: fair_to_def)
    from next_move [OF this] obtain m where m: "k \<le> m" "moves i (\<sigma> m) (\<sigma> (Suc m))"
      "task_at i (\<sigma> m) = task_at i (\<sigma> k)" by blast
    have "\<sigma> (Suc m) \<noteq> \<sigma> m" using m(2) by (auto simp: moves_def)
    with assms(2) have "step (\<sigma> m) (\<sigma> (Suc m))" unfolding goes_on_def by blast
    with assms(5) [of m] m less.prems have "(task_at i (\<sigma> (Suc m)), task_at i (\<sigma> k)) \<in> R" by simp
    from less.hyps [OF this] m(1) less.prems show False by simp
  qed
  then show False by blast
qed

lemma step_keeps_tasks: "program_step nxt step P a P' \<Longrightarrow> length (jobs P) \<le> length (jobs P')"
  by (erule program_step.cases) simp_all

lemma await_keeps_tasks:
  "await_program_step nxt cfg call h0 hstep rstep PW PW' \<Longrightarrow> length (jobs (fst PW)) \<le> length (jobs (fst PW'))"
  by (erule await_program_step.cases) (simp_all add: step_keeps_tasks)

lemma goes_on_tasks:
  assumes "goes_on (await_program_step nxt cfg call h0 hstep rstep) \<sigma>" and "n \<le> k"
  shows "length (jobs (fst (\<sigma> n))) \<le> length (jobs (fst (\<sigma> k)))"
  using assms(2)
proof (induction k rule: dec_induct)
  case (step k)
  from assms(1) have "\<sigma> (Suc k) = \<sigma> k \<or> await_program_step nxt cfg call h0 hstep rstep (\<sigma> k) (\<sigma> (Suc k))"
    by (simp add: goes_on_def)
  with step.IH show ?case by (auto dest: await_keeps_tasks)
qed simp

lemma goes_on_run:
  assumes "\<sigma> 0 = (program_start l x, nothing_under_way)"
    and "goes_on (await_steps L T d copy peer fresh os N cfg) \<sigma>"
  shows "await_run L T d copy peer fresh os N cfg l x (\<sigma> k)"
proof (induction k)
  case (Suc k)
  from assms(2) have "\<sigma> (Suc k) = \<sigma> k \<or> await_steps L T d copy peer fresh os N cfg (\<sigma> k) (\<sigma> (Suc k))"
    by (simp add: goes_on_def)
  then show ?case
  proof
    assume "await_steps L T d copy peer fresh os N cfg (\<sigma> k) (\<sigma> (Suc k))"
    with Suc show ?thesis unfolding await_run_def by (rule rtranclp.rtrancl_into_rtrancl)
  qed (use Suc in simp)
qed (simp add: assms(1) await_run_def)

lemma step_keeps_arrived: "program_step nxt step P a P' \<Longrightarrow> prefix (arrived P) (arrived P')"
  by (erule program_step.cases) simp_all

lemma await_keeps_arrived:
  "await_program_step nxt cfg call h0 hstep rstep PW PW' \<Longrightarrow> prefix (arrived (fst PW)) (arrived (fst PW'))"
  by (erule await_program_step.cases) (simp_all add: step_keeps_arrived)

lemma goes_on_arrived:
  assumes "goes_on (await_program_step nxt cfg call h0 hstep rstep) \<sigma>" and "n \<le> k"
  shows "prefix (arrived (fst (\<sigma> n))) (arrived (fst (\<sigma> k)))"
  using assms(2)
proof (induction k rule: dec_induct)
  case (step k)
  from assms(1) have "\<sigma> (Suc k) = \<sigma> k \<or> await_program_step nxt cfg call h0 hstep rstep (\<sigma> k) (\<sigma> (Suc k))"
    by (simp add: goes_on_def)
  then show ?case
  proof
    assume "await_program_step nxt cfg call h0 hstep rstep (\<sigma> k) (\<sigma> (Suc k))"
    from await_keeps_arrived [OF this] step.IH show ?thesis by (rule prefix_order.trans [rotated])
  qed (use step.IH in simp)
qed simp

context quiet_copy
begin

lemma fair_task_ends:
  assumes "goes_on (await_program_step nxt cfg (task_step IC T copies process cfg) h0 (await_step T)
      (bicopy_step T copy peer fresh)) \<sigma>" (is "goes_on ?step \<sigma>")
    and "fair_to i (await_program_step nxt cfg (task_step IC T copies process cfg) h0 (await_step T)
      (bicopy_step T copy peer fresh)) \<sigma>"
    and "i < length (jobs (fst (\<sigma> n)))"
    and "\<And>k. n \<le> k \<Longrightarrow> relay_quiet quiet (copyings (snd (\<sigma> k)) i)"
  shows "\<exists>m \<ge> n. running (fst (\<sigma> m)) = None \<or> final (phase (jobs (fst (\<sigma> m)) ! i))"
proof (rule fair_reaches [OF wf_task_less assms(1,2)])
  fix k
  assume k: "n \<le> k"
  from assms(3) goes_on_tasks [OF assms(1) k] have i: "i < length (jobs (fst (\<sigma> k)))" by simp
  show "\<exists>s. ?step (\<sigma> k) s \<and> moves i (\<sigma> k) s"
    if "\<not> (running (fst (\<sigma> k)) = None \<or> final (phase (jobs (fst (\<sigma> k)) ! i)))"
    using step_goes_on [of "fst (\<sigma> k)" _ i "snd (\<sigma> k)"] that i assms(4) [OF k] by fastforce
  show "?step (\<sigma> k) (\<sigma> (Suc k)) \<Longrightarrow> moves i (\<sigma> k) (\<sigma> (Suc k)) \<Longrightarrow>
      (task_at i (\<sigma> (Suc k)), task_at i (\<sigma> k)) \<in> task_less left"
    using step_nearer [OF _ i assms(4) [OF k]] by blast
qed

end

section \<open>A fair run in memory\<close>

lemma run_prefix:
  assumes "step\<^sup>*\<^sup>* s (\<sigma> 0)" and "goes_on step \<sigma>"
  shows "\<exists>\<sigma>' n. \<sigma>' 0 = s \<and> goes_on step \<sigma>' \<and> (\<forall>j. \<sigma>' (n + j) = \<sigma> j)"
  using assms(1)
proof (induction rule: converse_rtranclp_induct)
  case base
  with assms(2) show ?case by (intro exI [of _ \<sigma>] exI [of _ 0]) simp
next
  case (step s s1)
  then obtain \<sigma>' n where s: "\<sigma>' 0 = s1" "goes_on step \<sigma>'" "\<forall>j. \<sigma>' (n + j) = \<sigma> j" by blast
  have "goes_on step (case_nat s \<sigma>')"
    using s(1,2) step(1) by (auto simp: goes_on_def split: nat.split)
  with s(3) show ?case by (intro exI [of _ "case_nat s \<sigma>'"] exI [of _ "Suc n"]) simp
qed

lemma two_runs:
  assumes "step\<^sup>*\<^sup>* s0 s1" and "step\<^sup>*\<^sup>* s1 s2"
  obtains \<sigma> n n' where "\<sigma> 0 = s0" "goes_on step \<sigma>" "\<sigma> n = s1" "\<And>k. n' \<le> k \<Longrightarrow> \<sigma> k = s2"
proof -
  have "goes_on step (\<lambda>_. s2)" by (simp add: goes_on_def)
  from run_prefix [where \<sigma> = "\<lambda>_. s2", OF assms(2) this] obtain \<sigma>1 n1 where
    1: "\<sigma>1 0 = s1" "goes_on step \<sigma>1" "\<forall>j. \<sigma>1 (n1 + j) = s2" by blast
  from run_prefix [of step s0 \<sigma>1] 1(1,2) assms(1) obtain \<sigma> n where
    2: "\<sigma> 0 = s0" "goes_on step \<sigma>" "\<forall>j. \<sigma> (n + j) = \<sigma>1 j" by auto
  have "\<sigma> k = s2" if "n + n1 \<le> k" for k
    using that 1(3) 2(3) by (metis add.assoc le_iff_add)
  moreover from 1(1) 2(3) have "\<sigma> n = s1" by (metis add_0_right)
  ultimately show ?thesis using 2(1,2) that by blast
qed

lemma await_running:
  "await_program_step nxt cfg call h0 hstep rstep PW PW' \<Longrightarrow> \<exists>l. running (fst PW) = Some l"
  by (erule await_program_step.cases) (auto elim: program_step.cases)

lemma stopped_stays:
  assumes "goes_on (await_program_step nxt cfg call h0 hstep rstep) \<sigma>"
    and "running (fst (\<sigma> m)) = None" and "m \<le> k"
  shows "running (fst (\<sigma> k)) = None"
  using assms(3)
proof (induction k rule: dec_induct)
  case (step k)
  have "\<sigma> (Suc k) = \<sigma> k"
    using assms(1) step.IH await_running unfolding goes_on_def by (metis option.distinct(1))
  with step.IH show ?case by simp
qed (rule assms(2))

lemma fair_when_ended:
  assumes "\<And>k. n \<le> k \<Longrightarrow> \<sigma> k = (P, W)" and "i < length (jobs P)" and "final (phase (jobs P ! i))"
  shows "fair_to i (await_program_step nxt cfg (task_step IC T copies process cfg) h0 hstep rstep) \<sigma>"
proof -
  have "\<not> moves i (P, W) s" if
    "await_program_step nxt cfg (task_step IC T copies process cfg) h0 hstep rstep (P, W) s" for s
    using own_step [of nxt cfg IC T copies process h0 hstep rstep P W "fst s" "snd s" i] that assms(2,3)
    by (cases "phase (jobs P ! i)") auto
  then show ?thesis
    unfolding fair_to_def by (metis assms(1) nat_le_linear)
qed

text \<open>The client that asks for \<open>[::1]\<close>, port 80, once more, with peers that send nothing more.\<close>

interpretation silent_copies: draining_copy mem_copy "\<lambda>_ _. False" ms_read ms_out snd "(0, [])" 2 "\<lambda>_. False" ms_in
  by unfold_locales (auto simp: mem_copy_def split: prod.splits if_splits)

abbreviation silent_step where
  "silent_step \<equiv> await_steps list_listener mem_tcp False mem_copy (\<lambda>_ _. False) (0, []) Linux small_net direct_cfg"

lemma silent_run:
  obtains \<sigma> n l where "\<sigma> 0 = (program_start asking_client (0 :: nat), nothing_under_way)"
    and "goes_on silent_step \<sigma>" and "fair_to 0 silent_step \<sigma>"
    and "fst (\<sigma> n) = one_job l (client_of (ask6 80)) (Start, job_task (new_job (client_of (ask6 80))) 0)"
    and "\<And>m. running (fst (\<sigma> m)) \<noteq> None"
proof -
  obtain l t W W' where runs:
    "silent_step\<^sup>*\<^sup>* (program_start asking_client (0 :: nat), nothing_under_way)
       (one_job l (client_of (ask6 80)) (Start, job_task (new_job (client_of (ask6 80))) 0), W)"
    "silent_step\<^sup>*\<^sup>* (one_job l (client_of (ask6 80)) (Start, job_task (new_job (client_of (ask6 80))) 0), W)
       (one_job l (client_of (ask6 80)) (Done, t), W')"
    using asking_served [of "\<lambda>_ _. False"] unfolding await_run_def by blast
  obtain \<sigma> n n' where s: "\<sigma> 0 = (program_start asking_client (0 :: nat), nothing_under_way)" "goes_on silent_step \<sigma>"
    "\<sigma> n = (one_job l (client_of (ask6 80)) (Start, job_task (new_job (client_of (ask6 80))) 0), W)"
    "\<And>k. n' \<le> k \<Longrightarrow> \<sigma> k = (one_job l (client_of (ask6 80)) (Done, t), W')"
    using two_runs [OF runs] by blast
  have "fair_to 0 silent_step \<sigma>" by (rule fair_when_ended [OF s(4)]) (simp_all add: one_job_def task_job_def)
  moreover have "running (fst (\<sigma> m)) \<noteq> None" for m
    using stopped_stays [OF s(2), of m "max m n'"] s(4) [of "max m n'"] by (auto simp: one_job_def)
  moreover from s(3) have "fst (\<sigma> n) = one_job l (client_of (ask6 80)) (Start, job_task (new_job (client_of (ask6 80))) 0)"
    by simp
  ultimately show ?thesis using that s(1,2) by blast
qed

section \<open>Properties\<close>

text \<open>
  C8. Every task ends under a fair scheduler: in an infinite run of the program that is
  fair to a task, the task comes to its end, or an accept fails and the program stops, from any state, whatever the
  other tasks and clients do, provided that from some time on the peers of its relay
  have sent all they will send and take what they are sent.
\<close>

theorem fair_tasks_end:
  assumes "quiet_copy copy peer left quiet"
    and "goes_on (await_steps L T d copy peer fresh os N cfg) \<sigma>"
    and "fair_to i (await_steps L T d copy peer fresh os N cfg) \<sigma>"
    and "i < length (jobs (fst (\<sigma> n)))"
    and "\<And>k. n \<le> k \<Longrightarrow> relay_quiet quiet (copyings (snd (\<sigma> k)) i)"
  shows "\<exists>m \<ge> n. running (fst (\<sigma> m)) = None \<or> final (phase (jobs (fst (\<sigma> m)) ! i))"
  by (rule quiet_copy.fair_task_ends [OF assms])

theorem fair_tasks_end_witness:
  "\<exists>\<sigma> n m. \<sigma> 0 = (program_start asking_client (0 :: nat), nothing_under_way) \<and> goes_on silent_step \<sigma> \<and>
    phase (jobs (fst (\<sigma> n)) ! 0) = Start \<and> final (phase (jobs (fst (\<sigma> m)) ! 0))"
proof -
  obtain \<sigma> n l where s: "\<sigma> 0 = (program_start asking_client (0 :: nat), nothing_under_way)"
    "goes_on silent_step \<sigma>" "fair_to 0 silent_step \<sigma>"
    "fst (\<sigma> n) = one_job l (client_of (ask6 80)) (Start, job_task (new_job (client_of (ask6 80))) 0)"
    "\<And>m. running (fst (\<sigma> m)) \<noteq> None"
    by (rule silent_run) blast
  from fair_tasks_end [OF mem_quiet.quiet_copy_axioms s(2,3), of n] s(4,5)
  obtain m where "final (phase (jobs (fst (\<sigma> m)) ! 0))" by (auto simp: relay_quiet_def one_job_def)
  with s(1,2,4) show ?thesis
    by (intro exI [of _ \<sigma>] exI [of _ n] exI [of _ m]) (simp add: one_job_def task_job_def)
qed

text \<open>
  C4. Total correctness of the tunnel: over any byte streams, in an infinite run of the program that
  is fair to its task, a client that offered "no authentication" and asked for an address that can
  always be connected to is served, unless an accept fails first: its task ends, and has sent
  it the two replies and relayed, once, to a new connection to that address and back, each side
  being sent a prefix of what the other sent. When no error was logged, the remote side has been
  sent everything that the client had sent after its request, and all the client sent later that
  was read; and the client everything from the remote side in the same way. This is under the
  condition that from some time on the two peers have sent all they will send and take what they
  are sent.
\<close>

theorem fair_tunnel_delivers:
  assumes "draining_copy copy peer rcvd sent held fresh cap told_end unread"
    and "quiet_copy copy peer left quiet"
    and "scripted_stream T rcvd sent unread"
    and "\<sigma> 0 = (program_start l x, nothing_under_way)"
    and "goes_on (await_steps L T d copy peer fresh os N cfg) \<sigma>"
    and "fair_to i (await_steps L T d copy peer fresh os N cfg) \<sigma>"
    and "i < length (jobs (fst (\<sigma> n)))"
    and "\<And>k. n \<le> k \<Longrightarrow> relay_quiet quiet (copyings (snd (\<sigma> k)) i)"
    and "stream (arrived (fst (\<sigma> n)) ! i) = Some s" and "unread s = greeting ms @ request a @ rest"
    and "length ms \<le> 255" and "SOCKS5_NO_AUTH \<in> set ms" and "requestable a"
    and "out_type cfg = OutDirect"
    and "\<forall>n. \<exists>out n'. process_request_impl os N DirectOutgoing (as_parsed a) n = (Inr out, n')"
  shows "\<exists>m \<ge> n. running (fst (\<sigma> m)) = None \<or>
    phase (jobs (fst (\<sigma> m)) ! i) = Done \<and>
    (\<exists>m0 n' inc out i' o''. process_request_impl os N DirectOutgoing (as_parsed a) m0 = (Inr out, n') \<and>
      unread inc = rest \<and> sent inc = sent s @ [5, 0] @ reply_wire S5Success (as_parsed a) \<and>
      jrelays (jobs (fst (\<sigma> m)) ! i) = [(i', o'')] \<and> relayed rcvd sent inc out i' o'' \<and>
      (jlog (jobs (fst (\<sigma> m)) ! i) = [] \<longrightarrow>
        (\<exists>x y. rcvd i' = rcvd inc @ x \<and> sent o'' = sent out @ x \<and> prefix rest x \<and>
          rcvd o'' = rcvd out @ y \<and> sent i' = sent inc @ y \<and> prefix (unread out) y)))"
proof -
  obtain m where m: "n \<le> m" "running (fst (\<sigma> m)) = None \<or> final (phase (jobs (fst (\<sigma> m)) ! i))"
    using quiet_copy.fair_task_ends [OF assms(2,5-8)] by blast
  have run: "await_run L T d copy peer fresh os N cfg l x (fst (\<sigma> k), snd (\<sigma> k))" for k
    using goes_on_run [OF assms(4,5)] by simp
  from await_run_ok [OF assms(1) scripted_stream.axioms(1) [OF assms(3)] run]
  have "length (arrived (fst (\<sigma> k))) = length (jobs (fst (\<sigma> k)))" for k
    unfolding all_tasks_def prod.case by blast
  with goes_on_arrived [OF assms(5) m(1)] assms(7)
  have arrived: "arrived (fst (\<sigma> m)) ! i = arrived (fst (\<sigma> n)) ! i"
    by (metis nth_append_left prefix_def)
  show ?thesis
  proof (cases "running (fst (\<sigma> m)) = None")
    case True
    with m(1) show ?thesis by blast
  next
    case False
    with m(2) have "final (phase (jobs (fst (\<sigma> m)) ! i))" by simp
    moreover from goes_on_tasks [OF assms(5) m(1)] assms(7) have "i < length (jobs (fst (\<sigma> m)))" by simp
    ultimately show ?thesis
      using finished_tunnel [OF assms(1,3) run _ _ _ assms(10-15)] assms(9) arrived m(1)
      unfolding delivered_def by (intro exI [of _ m]) fastforce
  qed
qed

theorem fair_tunnel_delivers_witness:
  "\<exists>\<sigma> m i' o''. \<sigma> 0 = (program_start asking_client (0 :: nat), nothing_under_way) \<and> goes_on silent_step \<sigma> \<and>
    phase (jobs (fst (\<sigma> m)) ! 0) = Done \<and> jrelays (jobs (fst (\<sigma> m)) ! 0) = [(i', o'')] \<and>
    (jlog (jobs (fst (\<sigma> m)) ! 0) = [] \<longrightarrow> prefix [1, 2] (ms_out o''))"
proof -
  obtain \<sigma> n l where s: "\<sigma> 0 = (program_start asking_client (0 :: nat), nothing_under_way)"
    "goes_on silent_step \<sigma>" "fair_to 0 silent_step \<sigma>"
    "fst (\<sigma> n) = one_job l (client_of (ask6 80)) (Start, job_task (new_job (client_of (ask6 80))) 0)"
    "\<And>m. running (fst (\<sigma> m)) \<noteq> None"
    by (rule silent_run) blast
  have out: "process_request_impl Linux small_net DirectOutgoing (as_parsed local80) k = (Inr (mem_of [7, 8]), k + 1)" for k
    by (simp add: process_request_impl_def resolve_local_def small_net_def socket_addr_def)
  have hyps: "0 < length (jobs (fst (\<sigma> n)))" "relay_quiet (\<lambda>_. True) (copyings (snd (\<sigma> k)) 0)"
    "stream (arrived (fst (\<sigma> n)) ! 0) = Some (mem_of (ask6 80))"
    "ms_in (mem_of (ask6 80)) = greeting [0] @ request local80 @ [1, 2]"
    "length [0 :: u8] \<le> 255" "SOCKS5_NO_AUTH \<in> set [0]" "requestable local80" "out_type direct_cfg = OutDirect"
    "\<forall>n. \<exists>out n'. process_request_impl Linux small_net DirectOutgoing (as_parsed local80) n = (Inr out, n')" for k
    using s(4) out by (simp_all add: relay_quiet_def one_job_def ask6_def socks5_consts)
  from fair_tunnel_delivers [OF silent_copies.draining_copy_axioms mem_quiet.quiet_copy_axioms mem_scripted s(1-3) hyps]
    s(5)
  obtain m m0 n' out i' o'' where m: "phase (jobs (fst (\<sigma> m)) ! 0) = Done"
    "jrelays (jobs (fst (\<sigma> m)) ! 0) = [(i', o'')]"
    "jlog (jobs (fst (\<sigma> m)) ! 0) = [] \<longrightarrow> (\<exists>x. ms_out o'' = ms_out out @ x \<and> prefix [1, 2] x)"
    "process_request_impl Linux small_net DirectOutgoing (as_parsed local80) m0 = (Inr out, n')"
    by blast
  from m(4) out [of m0] have "ms_out out = []" by (auto simp: mem_of_def)
  with m(1-3) s(1,2) show ?thesis by auto
qed

end
