(* ===== verification/Future_Ext.thy ===== *)
theory Future_Ext
  imports Prelude
begin

text \<open>
  \<open>src/future_ext.rs\<close>: the future combinators \<open>alt\<close>, \<open>join\<close> and \<open>join_on_ok\<close>, the
  \<open>FlagFuture\<close> and the drop guard. A future is a state and a \<open>poll\<close> function on it; polling a
  future that has already returned \<open>Ready\<close> panics, as the compiler's futures do, so \<open>poll\<close>
  gives \<open>None\<close> then. The contract \<open>future\<close> says when a future is ready, counted in polls;
  each combinator of two futures satisfies the contract again, with its own count.
\<close>

type_synonym ('s, 'a) poller = "'s \<Rightarrow> ('a poll \<times> 's) option"

section \<open>The combinators\<close>

text \<open>\<open>AltFuture(F1, F2)\<close>.\<close>

definition alt_poll :: "('s, 'a) poller \<Rightarrow> ('t, 'b) poller \<Rightarrow> ('s \<times> 't, 'a option \<times> 'b option) poller" where
  "alt_poll p1 p2 f =
     (case f of (s, t) \<Rightarrow>
      (case p1 s of None \<Rightarrow> None | Some (a, s) \<Rightarrow>
      (case p2 t of None \<Rightarrow> None | Some (b, t) \<Rightarrow>
        Some ((case (a, b) of
            (Pending, Pending) \<Rightarrow> Pending
          | (Pending, Ready v2) \<Rightarrow> Ready (None, Some v2)
          | (Ready v1, Pending) \<Rightarrow> Ready (Some v1, None)
          | (Ready v1, Ready v2) \<Rightarrow> Ready (Some v1, Some v2)), (s, t)))))"

text \<open>\<open>JoinFuture(F1, F2, Option<T1>, Option<T2>)\<close>; \<open>unreachable!()\<close> is a panic.\<close>

record ('s, 't, 'a, 'b) join_future =
  fut1 :: 's
  fut2 :: 't
  got1 :: "'a option"
  got2 :: "'b option"

definition join_new :: "'s \<Rightarrow> 't \<Rightarrow> ('s, 't, 'a, 'b) join_future" where
  "join_new s t = \<lparr>fut1 = s, fut2 = t, got1 = None, got2 = None\<rparr>"

definition join_poll ::
  "('s, 'a) poller \<Rightarrow> ('t, 'b) poller \<Rightarrow> (('s, 't, 'a, 'b) join_future, 'a \<times> 'b) poller" where
  "join_poll p1 p2 j =
     (case (got1 j, got2 j) of
        (Some _, Some _) \<Rightarrow> None
      | (Some v1, None) \<Rightarrow>
          (case p2 (fut2 j) of
             None \<Rightarrow> None
           | Some (Ready v2, t) \<Rightarrow> Some (Ready (v1, v2), j\<lparr>fut2 := t, got1 := None\<rparr>)
           | Some (Pending, t) \<Rightarrow> Some (Pending, j\<lparr>fut2 := t\<rparr>))
      | (None, Some v2) \<Rightarrow>
          (case p1 (fut1 j) of
             None \<Rightarrow> None
           | Some (Ready v1, s) \<Rightarrow> Some (Ready (v1, v2), j\<lparr>fut1 := s, got2 := None\<rparr>)
           | Some (Pending, s) \<Rightarrow> Some (Pending, j\<lparr>fut1 := s\<rparr>))
      | (None, None) \<Rightarrow>
          (case p1 (fut1 j) of None \<Rightarrow> None | Some (a, s) \<Rightarrow>
          (case p2 (fut2 j) of None \<Rightarrow> None | Some (b, t) \<Rightarrow>
            let j = j\<lparr>fut1 := s, fut2 := t\<rparr> in
            Some (case (a, b) of
                (Ready v1, Ready v2) \<Rightarrow> (Ready (v1, v2), j)
              | (Ready v1, Pending) \<Rightarrow> (Pending, j\<lparr>got1 := Some v1\<rparr>)
              | (Pending, Ready v2) \<Rightarrow> (Pending, j\<lparr>got2 := Some v2\<rparr>)
              | (Pending, Pending) \<Rightarrow> (Pending, j)))))"

text \<open>
  \<open>join_on_ok\<close> keeps an \<open>Ok\<close> value and waits for the other future, and is ready at once with
  the first \<open>Err\<close>. In the branch where both are polled, the first future's error wins over a
  pending second one only; two ready results are returned together.
\<close>

definition join_on_ok_poll ::
  "('s, 'e + 'a) poller \<Rightarrow> ('t, 'f + 'b) poller \<Rightarrow>
   (('s, 't, 'a, 'b) join_future, ('e + 'a) option \<times> ('f + 'b) option) poller" where
  "join_on_ok_poll p1 p2 j =
     (case (got1 j, got2 j) of
        (Some _, Some _) \<Rightarrow> None
      | (Some v1, None) \<Rightarrow>
          (case p2 (fut2 j) of
             None \<Rightarrow> None
           | Some (Ready v2, t) \<Rightarrow>
               Some (Ready (Some (Inr v1), Some v2), j\<lparr>fut2 := t, got1 := None\<rparr>)
           | Some (Pending, t) \<Rightarrow> Some (Pending, j\<lparr>fut2 := t\<rparr>))
      | (None, Some v2) \<Rightarrow>
          (case p1 (fut1 j) of
             None \<Rightarrow> None
           | Some (Ready v1, s) \<Rightarrow>
               Some (Ready (Some v1, Some (Inr v2)), j\<lparr>fut1 := s, got2 := None\<rparr>)
           | Some (Pending, s) \<Rightarrow> Some (Pending, j\<lparr>fut1 := s\<rparr>))
      | (None, None) \<Rightarrow>
          (case p1 (fut1 j) of None \<Rightarrow> None | Some (a, s) \<Rightarrow>
          (case p2 (fut2 j) of None \<Rightarrow> None | Some (b, t) \<Rightarrow>
            let j = j\<lparr>fut1 := s, fut2 := t\<rparr> in
            Some (case (a, b) of
                (Ready v1, Ready v2) \<Rightarrow> (Ready (Some v1, Some v2), j)
              | (Ready (Inr v1), Pending) \<Rightarrow> (Pending, j\<lparr>got1 := Some v1\<rparr>)
              | (Ready (Inl e1), Pending) \<Rightarrow> (Ready (Some (Inl e1), None), j)
              | (Pending, Ready (Inr v2)) \<Rightarrow> (Pending, j\<lparr>got2 := Some v2\<rparr>)
              | (Pending, Ready (Inl e2)) \<Rightarrow> (Ready (None, Some (Inl e2)), j)
              | (Pending, Pending) \<Rightarrow> (Pending, j)))))"

text \<open>
  \<open>FlagFuture\<close>: clones share one atomic flag, so the flag is the state every handle works on.
  Its \<open>poll\<close> never panics and may be repeated.
\<close>

record flag_future =
  flag :: bool

definition flag_default :: flag_future where
  "flag_default = \<lparr>flag = False\<rparr>"

definition flag_set :: "flag_future \<Rightarrow> flag_future" where
  "flag_set f = f\<lparr>flag := True\<rparr>"

definition flag_is_set :: "flag_future \<Rightarrow> bool" where
  "flag_is_set f = flag f"

definition flag_poll :: "(flag_future, unit) poller" where
  "flag_poll f = Some (if flag_is_set f then Ready () else Pending, f)"

text \<open>
  The drop guard: the closure is moved out of the guard and run when the guard drops. A second
  drop would call an uninitialised closure, which is undefined behaviour (\<open>None\<close>).
\<close>

record 's drop_guard =
  guard_fn :: "('s \<Rightarrow> 's) option"

definition drop_guard_new :: "('s \<Rightarrow> 's) \<Rightarrow> 's drop_guard" where
  "drop_guard_new f = \<lparr>guard_fn = Some f\<rparr>"

definition drop_guard_drop :: "'s drop_guard \<Rightarrow> 's \<Rightarrow> ('s drop_guard \<times> 's) option" where
  "drop_guard_drop g s =
     (case guard_fn g of
        Some f \<Rightarrow> Some (g\<lparr>guard_fn := None\<rparr>, f s)
      | None \<Rightarrow> None)"

section \<open>The contract of a future\<close>

text \<open>
  While a future is \<open>alive\<close> it is pending for \<open>delay\<close> polls and then ready with \<open>result\<close>.
  \<open>drive\<close> is an executor that polls at most \<open>k\<close> times.
\<close>

fun drive :: "('s, 'a) poller \<Rightarrow> nat \<Rightarrow> 's \<Rightarrow> 'a option" where
  "drive p 0 s = None"
| "drive p (Suc k) s =
     (case p s of
        None \<Rightarrow> None
      | Some (Ready v, _) \<Rightarrow> Some v
      | Some (Pending, s') \<Rightarrow> drive p k s')"

lemma pending_conv:
  "(\<exists>s'. x = Some (Pending, s') \<and> Q s') \<longleftrightarrow> (case x of Some (Pending, s') \<Rightarrow> Q s' | _ \<Rightarrow> False)"
  by (auto split: option.split poll.split)

locale future =
  fixes p :: "('s, 'a) poller"
    and alive :: "'s \<Rightarrow> bool"
    and delay :: "'s \<Rightarrow> nat"
    and result :: "'s \<Rightarrow> 'a"
  assumes waits: "alive s \<Longrightarrow> delay s = Suc n \<Longrightarrow>
      \<exists>s'. p s = Some (Pending, s') \<and> alive s' \<and> delay s' = n \<and> result s' = result s"
    and ready: "alive s \<Longrightarrow> delay s = 0 \<Longrightarrow> \<exists>s'. p s = Some (Ready (result s), s')"
begin

lemma drive_result:
  "alive s \<Longrightarrow> drive p k s = (if delay s < k then Some (result s) else None)"
proof (induction k arbitrary: s)
  case 0
  then show ?case by simp
next
  case (Suc k)
  show ?case
  proof (cases "delay s")
    case 0
    with ready [OF Suc.prems] show ?thesis by auto
  next
    case (Suc n)
    from waits [OF Suc.prems this] Suc.IH Suc show ?thesis by auto
  qed
qed

text \<open>One poll, by the delay: the form the combinators use.\<close>

lemma polled:
  "alive s \<Longrightarrow>
     (\<exists>s'. 0 < delay s \<and> p s = Some (Pending, s') \<and> alive s' \<and> delay s' = delay s - 1 \<and>
        result s' = result s) \<or>
     (\<exists>s'. delay s = 0 \<and> p s = Some (Ready (result s), s'))"
  using waits [of s] ready [of s] by (cases "delay s") auto

end

section \<open>The combinators are futures\<close>

definition join_alive ::
  "('s \<Rightarrow> bool) \<Rightarrow> ('t \<Rightarrow> bool) \<Rightarrow> ('s, 't, 'a, 'b) join_future \<Rightarrow> bool" where
  "join_alive alive1 alive2 j \<longleftrightarrow>
     (got1 j = None \<longrightarrow> alive1 (fut1 j)) \<and> (got2 j = None \<longrightarrow> alive2 (fut2 j)) \<and>
     (got1 j = None \<or> got2 j = None)"

definition left :: "('s \<Rightarrow> nat) \<Rightarrow> 'a option \<Rightarrow> 's \<Rightarrow> nat" where
  "left delay got s = (case got of None \<Rightarrow> delay s | Some _ \<Rightarrow> 0)"

definition join_delay ::
  "('s \<Rightarrow> nat) \<Rightarrow> ('t \<Rightarrow> nat) \<Rightarrow> ('s, 't, 'a, 'b) join_future \<Rightarrow> nat" where
  "join_delay delay1 delay2 j = max (left delay1 (got1 j) (fut1 j)) (left delay2 (got2 j) (fut2 j))"

definition join_result ::
  "('s \<Rightarrow> 'a) \<Rightarrow> ('t \<Rightarrow> 'b) \<Rightarrow> ('s, 't, 'a, 'b) join_future \<Rightarrow> 'a \<times> 'b" where
  "join_result result1 result2 j =
     (case got1 j of Some v \<Rightarrow> v | None \<Rightarrow> result1 (fut1 j),
      case got2 j of Some v \<Rightarrow> v | None \<Rightarrow> result2 (fut2 j))"

lemmas join_obs_defs = join_alive_def join_delay_def join_result_def left_def

text \<open>
  \<open>join_on_ok\<close>: a pending \<open>Ok\<close> is waited for, an \<open>Err\<close> that comes first ends the wait and
  leaves the other side without a result.
\<close>

definition first_err :: "nat \<Rightarrow> nat \<Rightarrow> 'e + 'a \<Rightarrow> bool" where
  "first_err d d' r \<longleftrightarrow> d < d' \<and> isl r"

definition ok_delay ::
  "('s \<Rightarrow> nat) \<Rightarrow> ('t \<Rightarrow> nat) \<Rightarrow> ('s \<Rightarrow> 'e + 'a) \<Rightarrow> ('t \<Rightarrow> 'f + 'b) \<Rightarrow> ('s, 't, 'a, 'b) join_future \<Rightarrow> nat" where
  "ok_delay delay1 delay2 result1 result2 j =
     (let d1 = left delay1 (got1 j) (fut1 j); d2 = left delay2 (got2 j) (fut2 j) in
      if got1 j = None \<and> got2 j = None then
        (if first_err d1 d2 (result1 (fut1 j)) then d1
         else if first_err d2 d1 (result2 (fut2 j)) then d2
         else max d1 d2)
      else max d1 d2)"

definition ok_result ::
  "('s \<Rightarrow> nat) \<Rightarrow> ('t \<Rightarrow> nat) \<Rightarrow> ('s \<Rightarrow> 'e + 'a) \<Rightarrow> ('t \<Rightarrow> 'f + 'b) \<Rightarrow> ('s, 't, 'a, 'b) join_future \<Rightarrow>
   ('e + 'a) option \<times> ('f + 'b) option" where
  "ok_result delay1 delay2 result1 result2 j =
     (let r1 = (case got1 j of Some v \<Rightarrow> Inr v | None \<Rightarrow> result1 (fut1 j));
          r2 = (case got2 j of Some v \<Rightarrow> Inr v | None \<Rightarrow> result2 (fut2 j)) in
      if got1 j = None \<and> got2 j = None \<and> first_err (delay1 (fut1 j)) (delay2 (fut2 j)) r1 then (Some r1, None)
      else if got1 j = None \<and> got2 j = None \<and> first_err (delay2 (fut2 j)) (delay1 (fut1 j)) r2 then (None, Some r2)
      else (Some r1, Some r2))"

lemmas ok_obs_defs = join_alive_def ok_delay_def ok_result_def left_def first_err_def Let_def

definition alt_delay :: "('s \<Rightarrow> nat) \<Rightarrow> ('t \<Rightarrow> nat) \<Rightarrow> 's \<times> 't \<Rightarrow> nat" where
  "alt_delay delay1 delay2 f = min (delay1 (fst f)) (delay2 (snd f))"

definition alt_result ::
  "('s \<Rightarrow> nat) \<Rightarrow> ('t \<Rightarrow> nat) \<Rightarrow> ('s \<Rightarrow> 'a) \<Rightarrow> ('t \<Rightarrow> 'b) \<Rightarrow> 's \<times> 't \<Rightarrow> 'a option \<times> 'b option" where
  "alt_result delay1 delay2 result1 result2 f =
     (let d1 = delay1 (fst f); d2 = delay2 (snd f) in
      (if d1 \<le> d2 then Some (result1 (fst f)) else None,
       if d2 \<le> d1 then Some (result2 (snd f)) else None))"

locale future_pair =
  f1: future p1 alive1 delay1 result1 + f2: future p2 alive2 delay2 result2
  for p1 :: "('s, 'a) poller" and alive1 delay1 result1
    and p2 :: "('t, 'b) poller" and alive2 delay2 result2

sublocale future_pair \<subseteq> joined: future "join_poll p1 p2" "join_alive alive1 alive2"
  "join_delay delay1 delay2" "join_result result1 result2"
proof
  fix j :: "('s, 't, 'a, 'b) join_future" and n
  assume "join_alive alive1 alive2 j" "join_delay delay1 delay2 j = Suc n"
  then show "\<exists>j'. join_poll p1 p2 j = Some (Pending, j') \<and> join_alive alive1 alive2 j' \<and>
      join_delay delay1 delay2 j' = n \<and> join_result result1 result2 j' = join_result result1 result2 j"
    using f1.polled [of "fut1 j"] f2.polled [of "fut2 j"]
    by (cases "got1 j"; cases "got2 j") (auto simp: join_obs_defs join_poll_def)
next
  fix j :: "('s, 't, 'a, 'b) join_future"
  assume "join_alive alive1 alive2 j" "join_delay delay1 delay2 j = 0"
  then show "\<exists>j'. join_poll p1 p2 j = Some (Ready (join_result result1 result2 j), j')"
    using f1.polled [of "fut1 j"] f2.polled [of "fut2 j"]
    by (cases "got1 j"; cases "got2 j") (auto simp: join_obs_defs join_poll_def)
qed

sublocale future_pair \<subseteq> alternative: future "alt_poll p1 p2" "\<lambda>f. alive1 (fst f) \<and> alive2 (snd f)"
  "alt_delay delay1 delay2" "alt_result delay1 delay2 result1 result2"
proof
  fix f :: "'s \<times> 't" and n
  assume "alive1 (fst f) \<and> alive2 (snd f)" "alt_delay delay1 delay2 f = Suc n"
  with f1.polled [of "fst f"] f2.polled [of "snd f"] show "\<exists>f'. alt_poll p1 p2 f = Some (Pending, f') \<and> (alive1 (fst f') \<and> alive2 (snd f')) \<and>
      alt_delay delay1 delay2 f' = n \<and>
      alt_result delay1 delay2 result1 result2 f' = alt_result delay1 delay2 result1 result2 f"
    unfolding pending_conv
    by (cases f) (auto simp: alt_delay_def alt_result_def alt_poll_def Let_def split: if_splits)
next
  fix f :: "'s \<times> 't"
  assume "alive1 (fst f) \<and> alive2 (snd f)" "alt_delay delay1 delay2 f = 0"
  then show "\<exists>f'. alt_poll p1 p2 f = Some (Ready (alt_result delay1 delay2 result1 result2 f), f')"
    using f1.polled [of "fst f"] f2.polled [of "snd f"]
    by (cases f) (auto simp: alt_delay_def alt_result_def alt_poll_def Let_def split: if_splits)
qed

locale fallible_pair =
  future_pair p1 alive1 delay1 result1 p2 alive2 delay2 result2
  for p1 :: "('s, 'e + 'a) poller" and alive1 delay1 result1
    and p2 :: "('t, 'f + 'b) poller" and alive2 delay2 result2

sublocale fallible_pair \<subseteq> on_ok: future "join_on_ok_poll p1 p2" "join_alive alive1 alive2"
  "ok_delay delay1 delay2 result1 result2" "ok_result delay1 delay2 result1 result2"
proof
  fix j :: "('s, 't, 'a, 'b) join_future" and n
  assume a: "join_alive alive1 alive2 j" and d: "ok_delay delay1 delay2 result1 result2 j = Suc n"
  show "\<exists>j'. join_on_ok_poll p1 p2 j = Some (Pending, j') \<and> join_alive alive1 alive2 j' \<and>
      ok_delay delay1 delay2 result1 result2 j' = n \<and>
      ok_result delay1 delay2 result1 result2 j' = ok_result delay1 delay2 result1 result2 j"
    unfolding pending_conv
    using a d f1.polled [of "fut1 j"] f2.polled [of "fut2 j"]
    by (cases "got1 j"; cases "got2 j"; cases "result1 (fut1 j)"; cases "result2 (fut2 j)")
      (auto simp: ok_obs_defs join_on_ok_poll_def split: if_splits)
next
  fix j :: "('s, 't, 'a, 'b) join_future"
  assume a: "join_alive alive1 alive2 j" and d: "ok_delay delay1 delay2 result1 result2 j = 0"
  show "\<exists>j'. join_on_ok_poll p1 p2 j = Some (Ready (ok_result delay1 delay2 result1 result2 j), j')"
    using a d f1.polled [of "fut1 j"] f2.polled [of "fut2 j"]
    by (cases "got1 j"; cases "got2 j"; cases "result1 (fut1 j)"; cases "result2 (fut2 j)")
      (auto simp: ok_obs_defs join_on_ok_poll_def split: if_splits)
qed

section \<open>Instances\<close>

text \<open>
  A flag that is set is ready at once. A scripted future is pending a given number of polls and
  then ready once; polled again it panics, like the compiler's futures.
\<close>

lemma flag_set_is_set [simp]: "flag_is_set (flag_set f)"
  by (simp add: flag_set_def flag_is_set_def)

interpretation flag: future flag_poll flag_is_set "\<lambda>_. 0" "\<lambda>_. ()"
  by unfold_locales (simp_all add: flag_poll_def)

type_synonym 'a script = "(nat \<times> 'a) option"

definition script_poll :: "('a script, 'a) poller" where
  "script_poll s =
     (case s of
        None \<Rightarrow> None
      | Some (0, v) \<Rightarrow> Some (Ready v, None)
      | Some (Suc n, v) \<Rightarrow> Some (Pending, Some (n, v)))"

definition script_delay :: "'a script \<Rightarrow> nat" where
  "script_delay s = fst (the s)"

definition script_result :: "'a script \<Rightarrow> 'a" where
  "script_result s = snd (the s)"

lemmas script_defs = script_poll_def script_delay_def script_result_def

interpretation script: future script_poll "\<lambda>s. s \<noteq> None" script_delay script_result
  by unfold_locales (auto simp: script_defs)

interpretation flag_script: future_pair flag_poll flag_is_set "\<lambda>_. 0" "\<lambda>_. ()"
  script_poll "\<lambda>s. s \<noteq> None" script_delay script_result
  by unfold_locales

interpretation scripts: fallible_pair script_poll "\<lambda>s. s \<noteq> None" script_delay script_result
  script_poll "\<lambda>s. s \<noteq> None" script_delay script_result
  by unfold_locales

section \<open>Properties\<close>

lemmas join_new_obs = join_obs_defs ok_obs_defs join_new_def

lemma joinI:
  "future p1 alive1 delay1 result1 \<Longrightarrow> future p2 alive2 delay2 result2 \<Longrightarrow>
   future_pair p1 alive1 delay1 result1 p2 alive2 delay2 result2"
  by (rule future_pair.intro)

context future_pair
begin

lemma join_new_result:
  "alive1 s \<Longrightarrow> alive2 t \<Longrightarrow> drive (join_poll p1 p2) k (join_new s t) =
     (if max (delay1 s) (delay2 t) < k then Some (result1 s, result2 t) else None)"
  using joined.drive_result [of "join_new s t" k] by (simp add: join_new_obs)

lemma alt_new_result:
  "alive1 s \<Longrightarrow> alive2 t \<Longrightarrow> drive (alt_poll p1 p2) k (s, t) =
     (if min (delay1 s) (delay2 t) < k
      then Some (if delay1 s \<le> delay2 t then Some (result1 s) else None,
                 if delay2 t \<le> delay1 s then Some (result2 t) else None)
      else None)"
  using alternative.drive_result [of "(s, t)" k] by (simp add: alt_delay_def alt_result_def)

end

context fallible_pair
begin

lemma ok_new_result:
  "alive1 s \<Longrightarrow> alive2 t \<Longrightarrow> drive (join_on_ok_poll p1 p2) k (join_new s t) =
     (if first_err (delay1 s) (delay2 t) (result1 s)
      then (if delay1 s < k then Some (Some (result1 s), None) else None)
      else if first_err (delay2 t) (delay1 s) (result2 t)
      then (if delay2 t < k then Some (None, Some (result2 t)) else None)
      else (if max (delay1 s) (delay2 t) < k then Some (Some (result1 s), Some (result2 t)) else None))"
  using on_ok.drive_result [of "join_new s t" k] by (simp add: join_new_obs)

end

text \<open>
  An executor that polls \<open>join f1 f2\<close> gets both results, from the first poll on that the
  slower of the two futures needs, and nothing before. Neither future is polled after it has
  returned \<open>Ready\<close> (that would be a panic, and the drive would give no result).
\<close>

lemma join_waits_for_both:
  assumes "future p1 alive1 delay1 result1" and "future p2 alive2 delay2 result2"
    and "alive1 s" and "alive2 t"
  shows "drive (join_poll p1 p2) k (join_new s t) =
    (if max (delay1 s) (delay2 t) < k then Some (result1 s, result2 t) else None)"
  using joinI [OF assms(1,2)] assms(3,4) by (rule future_pair.join_new_result)

text \<open>
  An executor that polls \<open>alt f1 f2\<close> is done as soon as the faster future is ready, and gets
  the result of each future that was ready at that poll: both when they are ready together.
\<close>

lemma alt_takes_the_first:
  assumes "future p1 alive1 delay1 result1" and "future p2 alive2 delay2 result2"
    and "alive1 s" and "alive2 t"
  shows "drive (alt_poll p1 p2) k (s, t) =
    (if min (delay1 s) (delay2 t) < k
     then Some (if delay1 s \<le> delay2 t then Some (result1 s) else None,
                if delay2 t \<le> delay1 s then Some (result2 t) else None)
     else None)"
  using joinI [OF assms(1,2)] assms(3,4) by (rule future_pair.alt_new_result)

text \<open>
  C28. \<open>join_on_ok\<close> of two futures with \<open>Result\<close>s: when one fails before the other is ready, its
  error is returned at that poll and the other side is \<open>None\<close>; otherwise both results are
  returned when the slower one is ready, also when one of them, or both, are errors.
\<close>

theorem join_on_ok_stops_at_error:
  fixes p1 :: "('s, 'e + 'a) poller" and p2 :: "('t, 'f + 'b) poller"
  assumes "future p1 alive1 delay1 result1" and "future p2 alive2 delay2 result2"
    and "alive1 s" and "alive2 t"
  shows "drive (join_on_ok_poll p1 p2) k (join_new s t) =
    (if delay1 s < delay2 t \<and> isl (result1 s)
     then (if delay1 s < k then Some (Some (result1 s), None) else None)
     else if delay2 t < delay1 s \<and> isl (result2 t)
     then (if delay2 t < k then Some (None, Some (result2 t)) else None)
     else (if max (delay1 s) (delay2 t) < k then Some (Some (result1 s), Some (result2 t)) else None))"
  using fallible_pair.ok_new_result [OF fallible_pair.intro [OF joinI [OF assms(1,2)]] assms(3,4)]
  by (simp add: first_err_def)

theorem join_on_ok_stops_at_error_witness:
  "drive (join_on_ok_poll script_poll script_poll) 2
     (join_new (Some (5, Inr True)) (Some (1, Inl ''refused''))) =
     Some (None, Some (Inl ''refused'') :: (string + nat) option) \<and>
   drive (join_on_ok_poll script_poll script_poll) 6
     (join_new (Some (5, Inl ''late'')) (Some (1, Inr (7::nat)))) =
     Some (Some (Inl ''late'' :: string + bool), Some (Inr 7 :: string + nat))"
  using join_on_ok_stops_at_error [OF script.future_axioms script.future_axioms,
      of "Some (5, Inr True)" "Some (1, Inl ''refused'' :: string + nat)" 2]
    join_on_ok_stops_at_error [OF script.future_axioms script.future_axioms,
      of "Some (5, Inl ''late'' :: string + bool)" "Some (1, Inr (7::nat) :: string + nat)" 6]
  by (simp add: script_defs)

text \<open>
  The states a future is in between polls: after any number of polls that were all \<open>Pending\<close>.
  No assumption is made on the two futures here, they may panic or never be ready.
\<close>

inductive waiting :: "('s, 'a) poller \<Rightarrow> 's \<Rightarrow> 's \<Rightarrow> bool" for p :: "('s, 'a) poller" and s0 where
  start: "waiting p s0 s0"
| again: "waiting p s0 s \<Longrightarrow> p s = Some (Pending, s') \<Longrightarrow> waiting p s0 s'"

lemma join_waiting: "waiting (join_poll p1 p2) (join_new s t) j \<Longrightarrow> got1 j = None \<or> got2 j = None"
proof (induction rule: waiting.induct)
  case start
  then show ?case by (simp add: join_new_def)
next
  case (again j j')
  then show ?case
    by (auto simp: join_poll_def Let_def split: option.splits poll.splits prod.splits)
qed

lemma join_on_ok_waiting:
  "waiting (join_on_ok_poll p1 p2) (join_new s t) j \<Longrightarrow> got1 j = None \<or> got2 j = None"
proof (induction rule: waiting.induct)
  case start
  then show ?case by (simp add: join_new_def)
next
  case (again j j')
  then show ?case
    by (auto simp: join_on_ok_poll_def Let_def split: option.splits poll.splits prod.splits sum.splits)
qed

text \<open>
  The \<open>unreachable!()\<close> of \<open>join\<close> and \<open>join_on_ok\<close> is not reached: whatever the two futures
  do, a poll of a joined future that is still waiting panics only when one of the two futures
  whose result is still missing panics.
\<close>

lemma unreachable_not_reached:
  assumes "waiting (join_poll p1 p2) (join_new s t) j"
    and "waiting (join_on_ok_poll q1 q2) (join_new s' t') j'"
  shows "(join_poll p1 p2 j = None \<longrightarrow>
      got1 j = None \<and> p1 (fut1 j) = None \<or> got2 j = None \<and> p2 (fut2 j) = None) \<and>
    (join_on_ok_poll q1 q2 j' = None \<longrightarrow>
      got1 j' = None \<and> q1 (fut1 j') = None \<or> got2 j' = None \<and> q2 (fut2 j') = None)"
  using join_waiting [OF assms(1)] join_on_ok_waiting [OF assms(2)]
  by (auto simp: join_poll_def join_on_ok_poll_def Let_def
      split: option.splits poll.splits prod.splits)

text \<open>The guard runs its closure when it drops, and only then.\<close>

lemma drop_guard_runs_once:
  "drop_guard_drop (drop_guard_new f) s = Some (\<lparr>guard_fn = None\<rparr>, f s) \<and>
   (drop_guard_drop g s = Some (g', s') \<longrightarrow> drop_guard_drop g' s' = None)"
  by (auto simp: drop_guard_drop_def drop_guard_new_def split: option.split)

end
