(* ===== verification/Line_Parser.thy ===== *)
theory Line_Parser
  imports Prelude
begin

text \<open>
  \<open>src/http_parse/line_parser.rs\<close>: the incremental CRLF line splitter. \<open>split_crlf\<close> is what
  it is meant to compute, the first line of the bytes seen so far and what follows it; the
  lemmas say for which states and chunks \<open>parse_line_http\<close> computes it, and what it does on
  the others.
\<close>

abbreviation CR :: u8 where "CR \<equiv> 13"
abbreviation LF :: u8 where "LF \<equiv> 10"

record line_parser =
  lp_buf :: "u8 list"
  saw_return :: bool

definition lp_new :: line_parser where
  "lp_new = \<lparr>lp_buf = [], saw_return = False\<rparr>"

definition into_vec :: "line_parser \<Rightarrow> u8 list" where
  "into_vec lp = lp_buf lp"

text \<open>
  The loop over the indices of \<open>data\<close>, from index \<open>i\<close> with the bytes from there on: the
  position behind a CRLF, where the loop breaks, and \<open>saw_return\<close> afterwards.
\<close>

fun scan :: "bool \<Rightarrow> nat \<Rightarrow> u8 list \<Rightarrow> nat option \<times> bool" where
  "scan saw i [] = (None, saw)"
| "scan saw i (x # xs) =
     (if x = CR then
        if xs \<noteq> [] \<and> hd xs = LF then (Some (i + 2), saw) else scan True (i + 1) xs
      else scan False (i + 1) xs)"

text \<open>
  \<open>r.remove(r.len() - 1)\<close> panics on an empty \<open>r\<close>, in both build profiles; the buffer has been
  taken by then.
\<close>

definition parse_line_http :: "u8 list \<Rightarrow> (line_parser, unit, (u8 list \<times> nat) option) io" where
  "parse_line_http data lp =
     (if saw_return lp \<and> length data > 1 \<and> data ! 0 = LF then
        (if lp_buf lp = [] then Inl Panic else Inr (Some (butlast (lp_buf lp), 1)),
         lp\<lparr>lp_buf := []\<rparr>)
      else
        case scan (saw_return lp) 0 data of
          (Some pos, saw) \<Rightarrow>
            (Inr (Some (lp_buf lp @ take (pos - 2) data, pos)), \<lparr>lp_buf = [], saw_return = saw\<rparr>)
        | (None, saw) \<Rightarrow> (Inr None, \<lparr>lp_buf = lp_buf lp @ data, saw_return = saw\<rparr>))"

text \<open>
  The test of the module, \<open>test_line_parser\<close>: whether each of its four calls answers what it
  expects. A panic fails the test; the last call has no \<open>else\<close>.
\<close>

definition test_line_parser :: bool where
  "test_line_parser =
     (case parse_line_http [49, 50, 51, CR] lp_new of
        (Inr None, lp) \<Rightarrow>
          (case parse_line_http [52, 53, 54, CR] lp of
             (Inr None, lp) \<Rightarrow>
               (case parse_line_http [LF, 55, 56, 57] lp of
                  (Inr (Some (line, p)), lp) \<Rightarrow>
                    line = [49, 50, 51, CR, 52, 53, 54] \<and> p = 1 \<and>
                    (case parse_line_http [49, 50, 51, 52, 53, 54, CR, LF, 55, 56, 57] lp of
                       (Inr (Some (line, p)), _) \<Rightarrow> line = [49, 50, 51, 52, 53, 54] \<and> p = 8
                     | (Inr None, _) \<Rightarrow> True
                     | (Inl _, _) \<Rightarrow> False)
                | _ \<Rightarrow> False)
           | _ \<Rightarrow> False)
      | _ \<Rightarrow> False)"

lemma test_line_parser_passes: test_line_parser
  by (simp add: test_line_parser_def parse_line_http_def lp_new_def)

section \<open>The specification\<close>

fun split_crlf :: "u8 list \<Rightarrow> (u8 list \<times> u8 list) option" where
  "split_crlf [] = None"
| "split_crlf (x # xs) =
     (if x = CR \<and> xs \<noteq> [] \<and> hd xs = LF then Some ([], tl xs)
      else map_option (apfst ((#) x)) (split_crlf xs))"

lemma split_crlf_append:
  "split_crlf buf = None \<Longrightarrow> split_crlf (buf @ d) =
     (if buf \<noteq> [] \<and> last buf = CR \<and> d \<noteq> [] \<and> hd d = LF then Some (butlast buf, tl d)
      else map_option (apfst ((@) buf)) (split_crlf d))"
proof (induction buf)
  case Nil
  then show ?case by (simp add: apfst_def map_prod_def option.map_id)
next
  case (Cons x buf)
  show ?case
  proof (cases "buf = []")
    case True
    then show ?thesis by (auto simp: fun_eq_iff apfst_def map_prod_def)
  next
    case False
    with Cons.prems have "split_crlf buf = None" and "\<not> (x = CR \<and> hd buf = LF)"
      by (auto split: if_splits)
    moreover from this False have "split_crlf ((x # buf) @ d) = map_option (apfst ((#) x)) (split_crlf (buf @ d))"
      by auto
    ultimately show ?thesis
      using Cons.IH False by (cases "split_crlf d") auto
  qed
qed

lemma split_crlf_SomeD: "split_crlf bs = Some (l, r) \<Longrightarrow> bs = l @ [CR, LF] @ r \<and> split_crlf l = None"
proof (induction bs arbitrary: l)
  case Nil
  then show ?case by simp
next
  case (Cons x xs)
  show ?case
  proof (cases "x = CR \<and> xs \<noteq> [] \<and> hd xs = LF")
    case True
    with Cons.prems show ?thesis by (cases xs) auto
  next
    case False
    with Cons.prems obtain l' where "split_crlf xs = Some (l', r)" and l: "l = x # l'" by auto
    from Cons.IH [OF this(1)] False l show ?thesis by (cases l') auto
  qed
qed

lemma split_crlf_line:
  "split_crlf l = None \<Longrightarrow> split_crlf (l @ [CR, LF] @ r) = Some (l, r)"
  by (simp add: split_crlf_append)

lemma scan_pos: "fst (scan saw i d) = map_option (\<lambda>(l, r). i + length l + 2) (split_crlf d)"
  by (induction saw i d rule: scan.induct) (auto simp: option.map_comp comp_def case_prod_unfold)

lemma scan_flag: "split_crlf d = None \<Longrightarrow> snd (scan saw i d) = (if d = [] then saw else last d = CR)"
  by (induction saw i d rule: scan.induct) auto

lemma scan_None: "split_crlf d = None \<Longrightarrow> scan saw i d = (None, if d = [] then saw else last d = CR)"
  by (simp add: prod_eq_iff scan_pos scan_flag)

lemma scan_Some: "split_crlf d = Some (l, r) \<Longrightarrow> \<exists>saw'. scan saw i d = (Some (i + length l + 2), saw')"
  by (cases "scan saw i d") (use scan_pos [of saw i d] in auto)

text \<open>
  The parser's states: the buffer holds no complete line, and \<open>saw_return\<close> says whether it
  ends in CR. After a line has been taken the buffer is empty but the flag may be left set.
\<close>

definition lp_ok :: "line_parser \<Rightarrow> bool" where
  "lp_ok lp \<longleftrightarrow> split_crlf (lp_buf lp) = None \<and>
     (lp_buf lp \<noteq> [] \<longrightarrow> saw_return lp = (last (lp_buf lp) = CR))"

text \<open>
  The two chunks the parser gets wrong while the flag is set: an LF on its own, and, with the
  flag left over from an earlier line, an LF that is followed by more.
\<close>

definition misread :: "line_parser \<Rightarrow> u8 list \<Rightarrow> bool" where
  "misread lp d \<longleftrightarrow> saw_return lp \<and> d \<noteq> [] \<and> hd d = LF \<and> (lp_buf lp = []) \<noteq> (length d = 1)"

lemma parse_line_spec:
  assumes ok: "lp_ok lp" and d: "\<not> misread lp d"
  shows "(case split_crlf (lp_buf lp @ d) of
      Some (l, r) \<Rightarrow> \<exists>saw. parse_line_http d lp =
        (Inr (Some (l, length d - length r)), \<lparr>lp_buf = [], saw_return = saw\<rparr>) \<and>
        drop (length d - length r) d = r \<and> length r < length d
    | None \<Rightarrow> \<exists>lp'. parse_line_http d lp = (Inr None, lp') \<and> lp_buf lp' = lp_buf lp @ d \<and> lp_ok lp')"
proof -
  note app = split_crlf_append [of "lp_buf lp" d]
  show ?thesis
  proof (cases "saw_return lp \<and> length d > 1 \<and> d ! 0 = LF")
    case True
    then obtain d' where d': "d = LF # d'" "d' \<noteq> []" by (cases d) auto
    with True d have buf: "lp_buf lp \<noteq> []" by (simp add: misread_def)
    with True ok have "last (lp_buf lp) = CR" by (simp add: lp_ok_def)
    with buf app d' ok have "split_crlf (lp_buf lp @ d) = Some (butlast (lp_buf lp), d')"
      by (simp add: lp_ok_def)
    moreover have "parse_line_http d lp = (Inr (Some (butlast (lp_buf lp), 1)), lp\<lparr>lp_buf := []\<rparr>)"
      using True buf by (simp only: parse_line_http_def if_True simp_thms if_False)
    ultimately show ?thesis using d' by (cases lp) auto
  next
    case False
    then have skip: "\<not> (lp_buf lp \<noteq> [] \<and> last (lp_buf lp) = CR \<and> d \<noteq> [] \<and> hd d = LF)"
      using ok d by (auto simp: lp_ok_def misread_def hd_conv_nth not_less le_Suc_eq)
    show ?thesis
    proof (cases "split_crlf d")
      case None
      with False skip ok app show ?thesis
        by (auto simp: parse_line_http_def lp_ok_def scan_None)
    next
      case (Some lr)
      obtain l r where lr: "lr = (l, r)" by (cases lr)
      with Some split_crlf_SomeD [of d l r] have d: "d = l @ [CR, LF] @ r" by simp
      obtain saw where "scan (saw_return lp) 0 d = (Some (length l + 2), saw)"
        using scan_Some [of d l r "saw_return lp" 0] Some lr by auto
      with False have "parse_line_http d lp =
          (Inr (Some (lp_buf lp @ take (length l) d, length l + 2)), \<lparr>lp_buf = [], saw_return = saw\<rparr>)"
        by (simp only: parse_line_http_def if_False prod.case option.case) simp
      moreover have "split_crlf (lp_buf lp @ d) = Some (lp_buf lp @ l, r)"
        using app skip ok Some lr by (simp add: lp_ok_def)
      ultimately show ?thesis using d by simp
    qed
  qed
qed

section \<open>Feeding chunks\<close>

text \<open>
  What a caller does that feeds chunks until the first line is there: the line and the bytes
  behind it.
\<close>

primrec feed :: "u8 list list \<Rightarrow> line_parser \<Rightarrow> (unit, (u8 list \<times> u8 list) option) res" where
  "feed [] lp = Inr None"
| "feed (d # ds) lp =
     (case parse_line_http d lp of
        (Inl e, _) \<Rightarrow> Inl e
      | (Inr None, lp') \<Rightarrow> feed ds lp'
      | (Inr (Some (l, n)), _) \<Rightarrow> Inr (Some (l, drop n d @ concat ds)))"

lemma lp_ok_new [simp]: "lp_ok lp_new"
  by (simp add: lp_ok_def lp_new_def)

lemma not_misread_new [simp]: "\<not> misread lp_new d"
  by (simp add: misread_def lp_new_def)

text \<open>
  While no line has been taken the flag is not left over, so that a lone LF is the only chunk
  that is misread.
\<close>

definition lp_clean :: "line_parser \<Rightarrow> bool" where
  "lp_clean lp \<longleftrightarrow> lp_ok lp \<and> (saw_return lp \<longrightarrow> lp_buf lp \<noteq> [])"

lemma parse_line_clean:
  "lp_clean lp \<Longrightarrow> parse_line_http d lp = (Inr None, lp') \<Longrightarrow> lp_ok lp' \<Longrightarrow> lp_clean lp'"
  by (cases d) (auto simp: lp_clean_def parse_line_http_def split: if_splits prod.splits option.splits)

lemma feed_splits:
  "lp_clean lp \<Longrightarrow> [LF] \<notin> set ds \<Longrightarrow> feed ds lp = Inr (split_crlf (lp_buf lp @ concat ds))"
proof (induction ds arbitrary: lp)
  case Nil
  then show ?case by (simp add: lp_clean_def lp_ok_def)
next
  case (Cons d ds)
  have d: "\<not> misread lp d"
    using Cons.prems by (cases d) (auto simp: misread_def lp_clean_def)
  note spec = parse_line_spec [OF _ d]
  show ?case
  proof (cases "split_crlf (lp_buf lp @ d)")
    case None
    with spec Cons.prems(1) obtain lp' where lp': "parse_line_http d lp = (Inr None, lp')"
        "lp_buf lp' = lp_buf lp @ d" "lp_ok lp'"
      by (auto simp: lp_clean_def)
    with parse_line_clean [OF Cons.prems(1)] Cons.IH [of lp'] Cons.prems(2) show ?thesis
      by simp
  next
    case (Some lr)
    obtain l r where lr: "lr = (l, r)" by (cases lr)
    with Some split_crlf_SomeD [of "lp_buf lp @ d" l r]
    have "split_crlf ((lp_buf lp @ d) @ concat ds) = Some (l, r @ concat ds)"
      using split_crlf_line [of l "r @ concat ds"] by simp
    with Some lr spec Cons.prems(1) show ?thesis by (auto simp: lp_clean_def)
  qed
qed

lemma consumed:
  "parse_line_http d lp = (Inr (Some (l, n)), lp') \<Longrightarrow> 0 < n \<and> n \<le> length d"
proof -
  assume *: "parse_line_http d lp = (Inr (Some (l, n)), lp')"
  have "scan saw i d = (Some m, saw') \<Longrightarrow> m \<le> i + length d \<and> 0 < m" for saw i m saw'
    using scan_pos [of saw i d] by (cases "split_crlf d") (auto dest!: split_crlf_SomeD)
  from this [of "saw_return lp" 0] * show ?thesis
    by (auto simp: parse_line_http_def split: if_splits prod.splits option.splits)
qed

section \<open>Properties\<close>

text \<open>
  C29. Splitting is independent of the chunks: however the input is cut, a fresh parser finds
  the first CRLF-terminated line of the whole input and leaves exactly the bytes behind it,
  provided that no chunk is a line feed on its own.
\<close>

theorem chunks_do_not_matter:
  assumes "[LF] \<notin> set ds"
  shows "feed ds lp_new = Inr (split_crlf (concat ds))"
  using feed_splits [of lp_new ds] assms by (simp add: lp_clean_def) (simp add: lp_new_def)

theorem chunks_do_not_matter_witness:
  "feed [[49, 50, 51, CR], [52, CR], [LF, 55, 56]] lp_new = Inr (Some ([49, 50, 51, CR, 52], [55, 56]))"
  using chunks_do_not_matter [of "[[49, 50, 51, CR], [52, CR], [LF, 55, 56]]"] by simp

text \<open>
  A line feed that arrives on its own ends no line: when the buffer ends in CR and the next
  chunk is exactly LF, the parser reports no line and keeps CR and LF in its buffer, inside
  the line it will report later.
\<close>

lemma lone_line_feed_missed:
  assumes "split_crlf l = None" and "split_crlf m = None"
  shows "feed [l @ [CR], [LF], m @ [CR, LF] @ r] lp_new = Inr (Some (l @ [CR, LF] @ m, r))"
proof -
  have "split_crlf (l @ [CR]) = None" using assms by (simp add: split_crlf_append)
  then have "parse_line_http (l @ [CR]) lp_new = (Inr None, \<lparr>lp_buf = l @ [CR], saw_return = True\<rparr>)"
    by (simp add: parse_line_http_def lp_new_def scan_None)
  moreover have "parse_line_http [LF] \<lparr>lp_buf = l @ [CR], saw_return = True\<rparr> =
      (Inr None, \<lparr>lp_buf = l @ [CR, LF], saw_return = False\<rparr>)"
    by (simp add: parse_line_http_def)
  moreover obtain saw where
    "scan False 0 (m @ [CR, LF] @ r) = (Some (length m + 2), saw)"
    using scan_Some [OF split_crlf_line [OF assms(2), of r], of False 0] by auto
  then have "parse_line_http (m @ [CR, LF] @ r) \<lparr>lp_buf = l @ [CR, LF], saw_return = False\<rparr> =
      (Inr (Some (l @ [CR, LF] @ m, length m + 2)), \<lparr>lp_buf = [], saw_return = saw\<rparr>)"
    by (simp add: parse_line_http_def)
  ultimately show ?thesis by simp
qed

text \<open>
  The flag left over from a line: after a line whose CR and LF came in different chunks, input
  that goes on with a second LF and at least one more byte removes the last byte of an empty
  buffer, which panics.
\<close>

lemma leftover_flag_panics:
  assumes "split_crlf l = None" and "r \<noteq> []"
  shows "\<exists>lp1 lp2. parse_line_http (l @ [CR]) lp_new = (Inr None, lp1) \<and>
    parse_line_http ([LF, LF] @ r) lp1 = (Inr (Some (l, 1)), lp2) \<and>
    fst (parse_line_http (LF # r) lp2) = Inl Panic"
proof -
  have "split_crlf (l @ [CR]) = None" using assms by (simp add: split_crlf_append)
  then have "parse_line_http (l @ [CR]) lp_new = (Inr None, \<lparr>lp_buf = l @ [CR], saw_return = True\<rparr>)"
    by (simp add: parse_line_http_def lp_new_def scan_None)
  moreover have "parse_line_http ([LF, LF] @ r) \<lparr>lp_buf = l @ [CR], saw_return = True\<rparr> =
      (Inr (Some (l, 1)), \<lparr>lp_buf = [], saw_return = True\<rparr>)"
    by (simp add: parse_line_http_def)
  moreover have "fst (parse_line_http (LF # r) \<lparr>lp_buf = [], saw_return = True\<rparr>) = Inl Panic"
    using assms(2) by (simp add: parse_line_http_def)
  ultimately show ?thesis by blast
qed

end
