(* ===== verification/Http_Parse.thy ===== *)
theory Http_Parse
  imports Line_Parser Std_Net
begin

text \<open>
  \<open>src/http_parse/mod.rs\<close>: the HTTP header parser over the line splitter. The crates
  \<open>httparse\<close> and \<open>http\<close> are parameters: \<open>parse n bs\<close> is \<open>Request::parse\<close> of \<open>bs\<close> with room
  for \<open>n\<close> headers, \<open>build\<close> is the request builder. What is proved is which bytes and how much
  room for headers the parser gives to \<open>httparse\<close>.
\<close>

datatype http_version = HTTP_09 | HTTP_10 | HTTP_11 | HTTP_2

datatype parse_status = Complete nat | Partial

record parsed_request =
  pr_method :: "rstring option"
  pr_path :: "rstring option"
  pr_version :: "u8 option"
  pr_headers :: "(rstring \<times> u8 list) list"

datatype http_error = Message string | HttparseError string | BuilderError string

type_synonym httparse = "nat \<Rightarrow> u8 list \<Rightarrow> string + (parse_status \<times> parsed_request)"
type_synonym 'r http_builder =
  "http_version \<Rightarrow> rstring \<Rightarrow> rstring \<Rightarrow> (rstring \<times> u8 list) list \<Rightarrow> string + 'r"

record http_header_parser =
  hp_data :: "u8 list"
  lines_cnt :: nat
  hp_lines :: line_parser

definition hp_new :: http_header_parser where
  "hp_new = \<lparr>hp_data = [], lines_cnt = 0, hp_lines = lp_new\<rparr>"

text \<open>The \<open>match req.parse(&self.data)\<close> behind an empty line.\<close>

definition version_of :: "u8 option \<Rightarrow> (http_error, http_version) res" where
  "version_of v =
     (case v of
        None \<Rightarrow> Inr HTTP_09
      | Some n \<Rightarrow>
          if n = 0 then Inr HTTP_10
          else if n = 1 then Inr HTTP_11
          else Inl (Raise (Message ''Unsupported version'')))"

definition verdict ::
  "'r http_builder \<Rightarrow> string + (parse_status \<times> parsed_request) \<Rightarrow> (http_error, ('r \<times> nat) option) res" where
  "verdict build parsed =
     (case parsed of
        Inr (Complete n, req) \<Rightarrow>
          bindR (version_of (pr_version req)) (\<lambda>v.
          bindR (case pr_method req of Some m \<Rightarrow> Inr m
                 | None \<Rightarrow> Inl (Raise (Message ''method is empty''))) (\<lambda>m.
          bindR (case pr_path req of Some p \<Rightarrow> Inr p
                 | None \<Rightarrow> Inl (Raise (Message ''path is empty''))) (\<lambda>p.
          case build v m p (pr_headers req) of
            Inr r \<Rightarrow> Inr (Some (r, n))
          | Inl e \<Rightarrow> Inl (Raise (BuilderError e)))))
      | Inr (Partial, _) \<Rightarrow> Inr None
      | Inl e \<Rightarrow> Inl (Raise (HttparseError e)))"

definition finish_request ::
  "httparse \<Rightarrow> 'r http_builder \<Rightarrow> http_header_parser \<Rightarrow> (http_error, ('r \<times> nat) option) res" where
  "finish_request parse build hp =
     (let headers_cnt = (if lines_cnt hp > 0 then lines_cnt hp - 1 else 0) in
      verdict build (parse headers_cnt (hp_data hp)))"

text \<open>
  The loop of \<open>parse_http\<close>, on the part of \<open>data\<close> from \<open>start\<close> on. It ends because every line
  consumes at least one byte.
\<close>

function parse_loop ::
  "httparse \<Rightarrow> 'r http_builder \<Rightarrow> u8 list \<Rightarrow> (http_header_parser, http_error, ('r \<times> nat) option) io" where
  "parse_loop parse build rest hp =
     (case parse_line_http rest (hp_lines hp) of
        (Inl _, lp) \<Rightarrow> (Inl Panic, hp\<lparr>hp_lines := lp\<rparr>)
      | (Inr None, lp) \<Rightarrow> (Inr None, hp\<lparr>hp_lines := lp\<rparr>)
      | (Inr (Some (l, p)), lp) \<Rightarrow>
          let hp = hp\<lparr>hp_lines := lp, hp_data := hp_data hp @ take p rest\<rparr> in
          if length l \<noteq> 0 then
            parse_loop parse build (drop p rest) (hp\<lparr>lines_cnt := lines_cnt hp + 1\<rparr>)
          else (finish_request parse build hp, hp))"
  by pat_completeness auto
termination
  by (relation "measure (\<lambda>(_, _, rest, _). length rest)") (auto dest!: consumed [OF sym])

declare parse_loop.simps [simp del]

definition parse_http ::
  "httparse \<Rightarrow> 'r http_builder \<Rightarrow> u8 list \<Rightarrow> (http_header_parser, http_error, ('r \<times> nat) option) io" where
  "parse_http parse build data = parse_loop parse build data"

text \<open>
  The test of the module, \<open>test_httparse\<close>, of \<open>httparse\<close> alone, with no room for headers; its
  text is a request line and one header. \<open>test_h\<close> does nothing.
\<close>

definition test_httparse :: "httparse \<Rightarrow> bool" where
  "test_httparse parse =
     (let as_expected = (\<lambda>req. pr_method req = Some (bytes_of ''GET'') \<and> pr_path req = Some (bytes_of ''/'') \<and>
        pr_version req = Some 1)
      in case parse 0 (bytes_of ''GET / HTTP/1.1'' @ [CR, LF] @ bytes_of ''Content-Type: text/html'' @ [CR, LF, CR, LF]) of
        Inr (Complete n, req) \<Rightarrow> n = 18 \<and> as_expected req
      | Inr (Partial, req) \<Rightarrow> as_expected req
      | Inl _ \<Rightarrow> True)"

text \<open>
  \<open>httparse\<close> answers a header it has no room for with an error, which the test takes for a
  pass; were there room, a complete head of 43 bytes would fail it.
\<close>

lemma test_httparse_vacuous:
  assumes "\<And>bs. \<exists>e. parse 0 (bytes_of ''GET / HTTP/1.1'' @ [CR, LF] @ bs) = Inl e"
  shows "test_httparse parse"
  using assms [of "bytes_of ''Content-Type: text/html'' @ [CR, LF, CR, LF]"]
  by (auto simp: test_httparse_def)

section \<open>Lines\<close>

text \<open>
  A header block: non-empty lines without CRLF, none starting with LF, each ended by CRLF, and
  then the empty line.
\<close>

definition crlf_lines :: "u8 list list \<Rightarrow> u8 list" where
  "crlf_lines ls = concat (map (\<lambda>l. l @ [CR, LF]) ls)"

definition header_lines :: "u8 list list \<Rightarrow> bool" where
  "header_lines ls \<longleftrightarrow> (\<forall>l \<in> set ls. l \<noteq> [] \<and> hd l \<noteq> LF \<and> split_crlf l = None)"

lemma line_taken:
  assumes "split_crlf l = None" and "saw_return lp \<longrightarrow> l = [] \<or> hd l \<noteq> LF"
  shows "\<exists>saw. parse_line_http (l @ [CR, LF] @ r) lp =
    (Inr (Some (lp_buf lp @ l, length l + 2)), \<lparr>lp_buf = [], saw_return = saw\<rparr>)"
proof -
  obtain saw where "scan (saw_return lp) 0 (l @ [CR, LF] @ r) = (Some (length l + 2), saw)"
    using scan_Some [OF split_crlf_line [OF assms(1), of r], of "saw_return lp" 0] by auto
  moreover have "\<not> (saw_return lp \<and> length (l @ [CR, LF] @ r) > 1 \<and> (l @ [CR, LF] @ r) ! 0 = LF)"
    using assms(2) by (cases l) auto
  ultimately show ?thesis
    by (simp add: parse_line_http_def del: append.simps append_assoc)
qed

lemma split_crlf_None_append:
  assumes "split_crlf (a @ b) = None"
  shows "split_crlf a = None" and "split_crlf b = None"
    and "a \<noteq> [] \<Longrightarrow> last a = CR \<Longrightarrow> b = [] \<or> hd b \<noteq> LF"
proof -
  show a: "split_crlf a = None"
  proof (rule ccontr)
    assume "split_crlf a \<noteq> None"
    then obtain l r where "a = l @ [CR, LF] @ r" "split_crlf l = None"
      using split_crlf_SomeD [of a] by fastforce
    with assms split_crlf_line [of l "r @ b"] show False by simp
  qed
  show "split_crlf b = None" "a \<noteq> [] \<Longrightarrow> last a = CR \<Longrightarrow> b = [] \<or> hd b \<noteq> LF"
    using assms split_crlf_append [OF a, of b] by (auto split: if_splits)
qed

lemma parse_loop_line:
  assumes "l \<noteq> []" and "split_crlf l = None" and "saw_return (hp_lines hp) \<longrightarrow> hd l \<noteq> LF"
  shows "\<exists>saw. parse_loop parse build (l @ [CR, LF] @ r) hp =
    parse_loop parse build r (hp\<lparr>hp_lines := \<lparr>lp_buf = [], saw_return = saw\<rparr>,
      hp_data := hp_data hp @ l @ [CR, LF], lines_cnt := lines_cnt hp + 1\<rparr>)"
  using line_taken [of l "hp_lines hp" r] assms
  by (subst parse_loop.simps) (auto simp: Let_def)

lemma parse_loop_end:
  assumes "lp_buf (hp_lines hp) = []"
  shows "\<exists>saw. parse_loop parse build ([CR, LF] @ r) hp =
    (let hp = hp\<lparr>hp_lines := \<lparr>lp_buf = [], saw_return = saw\<rparr>, hp_data := hp_data hp @ [CR, LF]\<rparr> in
     (finish_request parse build hp, hp))"
  using line_taken [of "[]" "hp_lines hp" r] assms
  by (subst parse_loop.simps) (auto simp: Let_def)

lemma parse_loop_lines:
  "header_lines ls \<Longrightarrow> lp_buf (hp_lines hp) = [] \<Longrightarrow>
   \<exists>lp. lp_buf lp = [] \<and> parse_loop parse build (crlf_lines ls @ [CR, LF] @ r) hp =
    (let hp = hp\<lparr>hp_lines := lp, hp_data := hp_data hp @ crlf_lines ls @ [CR, LF],
                 lines_cnt := lines_cnt hp + length ls\<rparr> in
     (finish_request parse build hp, hp))"
proof (induction ls arbitrary: hp)
  case Nil
  with parse_loop_end [of hp parse build r] show ?case
    by (cases hp) (auto simp: crlf_lines_def Let_def)
next
  case (Cons l ls)
  then have l: "l \<noteq> []" "split_crlf l = None" "hd l \<noteq> LF" "header_lines ls"
    by (simp_all add: header_lines_def)
  from parse_loop_line [OF l(1,2), of hp parse build "crlf_lines ls @ [CR, LF] @ r"] l(3)
  obtain saw where step: "parse_loop parse build (l @ [CR, LF] @ crlf_lines ls @ [CR, LF] @ r) hp =
    parse_loop parse build (crlf_lines ls @ [CR, LF] @ r) (hp\<lparr>hp_lines := \<lparr>lp_buf = [], saw_return = saw\<rparr>,
      hp_data := hp_data hp @ l @ [CR, LF], lines_cnt := lines_cnt hp + 1\<rparr>)" by blast
  from Cons.IH [OF l(4), of "hp\<lparr>hp_lines := \<lparr>lp_buf = [], saw_return = saw\<rparr>,
      hp_data := hp_data hp @ l @ [CR, LF], lines_cnt := lines_cnt hp + 1\<rparr>"] step
  show ?case by (cases hp) (auto simp: crlf_lines_def Let_def)
qed

text \<open>Input without a complete line only fills the line parser.\<close>

lemma parse_loop_partial:
  assumes "lp_buf (hp_lines hp) = []" and "saw_return (hp_lines hp) = False" and "split_crlf a = None"
  shows "parse_loop parse build a hp = (Inr None,
    hp\<lparr>hp_lines := \<lparr>lp_buf = a, saw_return = a \<noteq> [] \<and> last a = CR\<rparr>\<rparr>)"
  using assms by (subst parse_loop.simps) (simp add: parse_line_http_def scan_None)

section \<open>Instances of the parameters\<close>

text \<open>An \<open>httparse\<close> that takes every input whole, and a builder that keeps what it is given.\<close>

definition any_parse :: httparse where
  "any_parse n bs = Inr (Complete (length bs),
     \<lparr>pr_method = Some [71], pr_path = Some [47], pr_version = Some 1, pr_headers = replicate n ([], [])\<rparr>)"

definition any_build :: "(http_version \<times> rstring \<times> rstring \<times> nat) http_builder" where
  "any_build v m p hs = Inr (v, m, p, length hs)"

lemma finish_any [simp]:
  "finish_request any_parse any_build hp =
     Inr (Some ((HTTP_11, [71], [47], lines_cnt hp - 1), length (hp_data hp)))"
  by (simp add: finish_request_def verdict_def any_parse_def any_build_def version_of_def Let_def)

section \<open>Properties\<close>

text \<open>
  C30. A request head that arrives in one piece is parsed as meant, whatever the parser and the
  builder are: the result is the verdict (\<open>verdict\<close>, the \<open>match\<close> of the code) on what \<open>httparse\<close>
  answers when it is given exactly the bytes of the head, with room for one header less than
  the head has lines, the request line being none; the bytes behind the head are not looked at.
\<close>

theorem whole_head_parsed:
  assumes "header_lines ls"
  shows "fst (parse_http parse build (crlf_lines ls @ [CR, LF] @ r) hp_new) =
    verdict build (parse (length ls - 1) (crlf_lines ls @ [CR, LF]))"
  using parse_loop_lines [OF assms, of hp_new parse build r]
  by (auto simp: parse_http_def hp_new_def lp_new_def finish_request_def Let_def)

theorem whole_head_parsed_witness:
  "fst (parse_http any_parse any_build (crlf_lines [[71, 32, 47], [65]] @ [CR, LF] @ [66]) hp_new) =
     Inr (Some ((HTTP_11, [71], [47], 1), 10))"
  using whole_head_parsed [of "[[71, 32, 47], [65]]" any_parse any_build "[66]"]
  by (auto simp: header_lines_def crlf_lines_def verdict_def any_parse_def any_build_def version_of_def)

text \<open>
  C31. The bytes of a split line are lost: when the head arrives in two pieces and the cut is
  inside its first line, \<open>httparse\<close> is given the second piece only. The first piece is joined
  to the line that decides where the head ends but never to the data that is parsed.
\<close>

theorem split_head_loses_bytes:
  assumes "header_lines ((a @ b) # ls)" and "a \<noteq> []" and "b \<noteq> []"
  shows "\<exists>hp1 lp. parse_http parse build a hp_new = (Inr None, hp1) \<and>
    parse_http parse build (crlf_lines (b # ls) @ [CR, LF] @ r) hp1 =
      (finish_request parse build
         \<lparr>hp_data = crlf_lines (b # ls) @ [CR, LF], lines_cnt = Suc (length ls), hp_lines = lp\<rparr>,
       \<lparr>hp_data = crlf_lines (b # ls) @ [CR, LF], lines_cnt = Suc (length ls), hp_lines = lp\<rparr>)"
proof -
  let ?hp = "\<lparr>hp_data = [], lines_cnt = 0, hp_lines = \<lparr>lp_buf = a, saw_return = last a = CR\<rparr>\<rparr>"
  have ab: "split_crlf (a @ b) = None" and ls: "header_lines ls"
    using assms(1) by (simp_all add: header_lines_def)
  note parts = split_crlf_None_append [OF ab]
  have first: "parse_http parse build a hp_new = (Inr None, ?hp)"
    using parse_loop_partial [of hp_new a parse build] parts(1) assms(2)
    by (simp add: parse_http_def hp_new_def lp_new_def)
  from parse_loop_line [of b ?hp parse build "crlf_lines ls @ [CR, LF] @ r"] parts assms(2,3)
  obtain saw where "parse_loop parse build (b @ [CR, LF] @ crlf_lines ls @ [CR, LF] @ r) ?hp =
      parse_loop parse build (crlf_lines ls @ [CR, LF] @ r)
        \<lparr>hp_data = b @ [CR, LF], lines_cnt = 1, hp_lines = \<lparr>lp_buf = [], saw_return = saw\<rparr>\<rparr>"
    by auto
  with parse_loop_lines [OF ls, of "\<lparr>hp_data = b @ [CR, LF], lines_cnt = 1,
      hp_lines = \<lparr>lp_buf = [], saw_return = saw\<rparr>\<rparr>" parse build r] first
  show ?thesis by (auto simp: parse_http_def crlf_lines_def Let_def)
qed

theorem split_head_loses_bytes_witness:
  "\<exists>hp1. parse_http any_parse any_build [71, 32] hp_new = (Inr None, hp1) \<and>
    fst (parse_http any_parse any_build (crlf_lines [[47], [65]] @ [CR, LF]) hp1) =
      Inr (Some ((HTTP_11, [71], [47], 1), 8))"
  using split_head_loses_bytes [of "[71, 32]" "[47]" "[[65]]" any_parse any_build "[]"]
  by (auto simp: header_lines_def crlf_lines_def)

text \<open>
  The parser is not reset behind a request: the bytes and the line count of a head stay in
  it, so that for the next head on the same connection \<open>httparse\<close> is again given the first
  one, followed by the second.
\<close>

lemma second_head_misparsed:
  assumes "header_lines ls" and "header_lines ls'"
  shows "\<exists>hp1 lp. parse_http parse build (crlf_lines ls @ [CR, LF]) hp_new =
      (finish_request parse build hp1, hp1) \<and>
    hp_data hp1 = crlf_lines ls @ [CR, LF] \<and> lines_cnt hp1 = length ls \<and>
    fst (parse_http parse build (crlf_lines ls' @ [CR, LF]) hp1) =
      finish_request parse build
        \<lparr>hp_data = (crlf_lines ls @ [CR, LF]) @ (crlf_lines ls' @ [CR, LF]),
         lines_cnt = length ls + length ls', hp_lines = lp\<rparr>"
proof -
  from parse_loop_lines [OF assms(1), of hp_new parse build "[]"]
  obtain lp where lp: "lp_buf lp = []" "parse_loop parse build (crlf_lines ls @ [CR, LF]) hp_new =
      (finish_request parse build
         \<lparr>hp_data = crlf_lines ls @ [CR, LF], lines_cnt = length ls, hp_lines = lp\<rparr>,
       \<lparr>hp_data = crlf_lines ls @ [CR, LF], lines_cnt = length ls, hp_lines = lp\<rparr>)"
    by (auto simp: hp_new_def lp_new_def Let_def)
  with parse_loop_lines [OF assms(2), of
      "\<lparr>hp_data = crlf_lines ls @ [CR, LF], lines_cnt = length ls, hp_lines = lp\<rparr>" parse build "[]"]
  show ?thesis by (auto simp: parse_http_def Let_def)
qed

text \<open>
  A peer can stop the handler with four bytes: when the CR of a line and its LF come in
  different pieces and the second piece goes on with another LF and any byte, the parser
  panics.
\<close>

lemma bare_line_feed_panics:
  assumes "split_crlf l = None" and "l \<noteq> []" and "r \<noteq> []"
  shows "\<exists>hp1. parse_http parse build (l @ [CR]) hp_new = (Inr None, hp1) \<and>
    fst (parse_http parse build ([LF, LF] @ r) hp1) = Inl Panic"
proof -
  obtain lp1 lp2 where lp: "parse_line_http (l @ [CR]) lp_new = (Inr None, lp1)"
      "parse_line_http ([LF, LF] @ r) lp1 = (Inr (Some (l, 1)), lp2)"
      "fst (parse_line_http (LF # r) lp2) = Inl Panic"
    using leftover_flag_panics [OF assms(1,3)] by blast
  have "parse_http parse build (l @ [CR]) hp_new = (Inr None, hp_new\<lparr>hp_lines := lp1\<rparr>)"
    using lp(1) by (simp add: parse_http_def hp_new_def parse_loop.simps)
  moreover have "fst (parse_loop parse build (LF # r) hp) = Inl Panic" if "hp_lines hp = lp2" for hp
    using lp(3) that by (subst parse_loop.simps) (auto split: prod.split)
  then have "fst (parse_http parse build ([LF, LF] @ r) (hp_new\<lparr>hp_lines := lp1\<rparr>)) = Inl Panic"
    using lp(2) assms(2) by (simp add: parse_http_def) (subst parse_loop.simps, simp add: Let_def)
  ultimately show ?thesis by blast
qed

end
