(* ===== verification/Tls_Stream.thy ===== *)
theory Tls_Stream
  imports Req_Addr
begin

text \<open>
  \<open>src/tls_stream.rs\<close>: the non-blocking TLS stream over a TCP socket. The session of rustls
  and the socket are parameters, a record of the calls the code makes on their states. The two
  loops that drive the session are partial functions, whose value is \<open>None\<close> when they do not
  return; \<open>tls_progress\<close> states what the session has to do for them to return.
\<close>

record ('n, 's) tls_ops =
  wants_read :: "'s \<Rightarrow> bool"
  wants_write :: "'s \<Rightarrow> bool"
  is_handshaking :: "'s \<Rightarrow> bool"
  read_tls :: "'n \<Rightarrow> 's \<Rightarrow> (io_error + nat) \<times> 'n \<times> 's"
  write_tls :: "'n \<Rightarrow> 's \<Rightarrow> (io_error + nat) \<times> 'n \<times> 's"
  process_new_packets :: "'s \<Rightarrow> (string + unit) \<times> 's"
  sess_read :: "nat \<Rightarrow> 's \<Rightarrow> (io_error + u8 list) \<times> 's"
  sess_write :: "u8 list \<Rightarrow> 's \<Rightarrow> (io_error + nat) \<times> 's"
  shutdown_write :: "'n \<Rightarrow> (io_error + unit) \<times> 'n"
  async_shutdown :: "'n \<Rightarrow> (io_error + unit) \<times> 'n"
  sock_local_addr :: "'n \<Rightarrow> io_error + sock_addr"
  sock_peer_addr :: "'n \<Rightarrow> io_error + sock_addr"

record ('n, 's) tls_stream =
  sock :: 'n
  session :: 's
  eof :: bool

definition tls_new :: "'n \<Rightarrow> 's \<Rightarrow> ('n, 's) tls_stream" where
  "tls_new k s = \<lparr>sock = k, session = s, eof = False\<rparr>"

type_synonym io_poll = "(io_error + unit) poll"

definition invalid_data :: "string \<Rightarrow> io_error" where
  "invalid_data e = (io_of_kind KInvalidData)\<lparr>io_text := e\<rparr>"

partial_function (option) check_read ::
  "('n, 's) tls_ops \<Rightarrow> ('n, 's) tls_stream \<Rightarrow> (io_poll \<times> ('n, 's) tls_stream) option" where
  "check_read S t =
     (if \<not> eof t \<and> wants_read S (session t) then
        case read_tls S (sock t) (session t) of
          (Inr n, k, s) \<Rightarrow>
            if n = 0 then Some (Ready (Inr ()), t\<lparr>sock := k, session := s, eof := True\<rparr>)
            else
              (case process_new_packets S s of
                 (Inl e, s) \<Rightarrow> Some (Ready (Inl (invalid_data e)), t\<lparr>sock := k, session := s\<rparr>)
               | (Inr _, s) \<Rightarrow> check_read S (t\<lparr>sock := k, session := s\<rparr>))
        | (Inl e, k, s) \<Rightarrow>
            Some (if io_kind e = KWouldBlock then Pending else Ready (Inl e),
                  t\<lparr>sock := k, session := s\<rparr>)
      else Some (Ready (Inr ()), t))"

partial_function (option) check_write ::
  "('n, 's) tls_ops \<Rightarrow> ('n, 's) tls_stream \<Rightarrow> (io_poll \<times> ('n, 's) tls_stream) option" where
  "check_write S t =
     (if wants_write S (session t) then
        case write_tls S (sock t) (session t) of
          (Inr n, k, s) \<Rightarrow> check_write S (t\<lparr>sock := k, session := s\<rparr>)
        | (Inl e, k, s) \<Rightarrow>
            Some (if io_kind e = KWouldBlock then Pending else Ready (Inl e),
                  t\<lparr>sock := k, session := s\<rparr>)
      else Some (Ready (Inr ()), t))"

text \<open>Both sides are driven, in this order, before the two results are looked at.\<close>

definition complete_io ::
  "('n, 's) tls_ops \<Rightarrow> ('n, 's) tls_stream \<Rightarrow> (io_poll \<times> ('n, 's) tls_stream) option" where
  "complete_io S t =
     Option.bind (check_read S t) (\<lambda>(r, t).
     Option.bind (check_write S t) (\<lambda>(w, t).
     Some (case (r, w) of
         (Ready (Inr _), Ready (Inr _)) \<Rightarrow> Ready (Inr ())
       | (Ready (Inl e), _) \<Rightarrow> Ready (Inl e)
       | (_, Ready (Inl e)) \<Rightarrow> Ready (Inl e)
       | _ \<Rightarrow> if is_handshaking S (session t) then Pending else Ready (Inr ()), t)))"

definition check_would_block :: "(io_error + 'a) poll \<Rightarrow> io_error + 'a" where
  "check_would_block p = (case p of Ready r \<Rightarrow> r | Pending \<Rightarrow> Inl (io_of_kind KWouldBlock))"

text \<open>\<open>read\<close> into a buffer of \<open>len\<close> bytes; the bytes read stand for their number.\<close>

definition tls_read ::
  "('n, 's) tls_ops \<Rightarrow> nat \<Rightarrow> ('n, 's) tls_stream \<Rightarrow>
   ((io_error + u8 list) \<times> ('n, 's) tls_stream) option" where
  "tls_read S len t =
     Option.bind (complete_io S t) (\<lambda>(p, t).
     Some (case check_would_block p of
         Inl e \<Rightarrow> (Inl e, t)
       | Inr _ \<Rightarrow>
           if eof t then (Inr [], t)
           else
             (case sess_read S len (session t) of
                (Inl e, s) \<Rightarrow> (Inl e, t\<lparr>session := s\<rparr>)
              | (Inr bs, s) \<Rightarrow>
                  (if length bs > 0 then Inr bs else Inl (io_of_kind KWouldBlock), t\<lparr>session := s\<rparr>))))"

definition tls_write ::
  "('n, 's) tls_ops \<Rightarrow> u8 list \<Rightarrow> ('n, 's) tls_stream \<Rightarrow>
   ((io_error + nat) \<times> ('n, 's) tls_stream) option" where
  "tls_write S buf t =
     (if length buf = 0 then
        case shutdown_write S (sock t) of
          (Inl e, k) \<Rightarrow> Some (Inl e, t\<lparr>sock := k\<rparr>)
        | (Inr _, k) \<Rightarrow> Some (Inr 0, t\<lparr>sock := k\<rparr>)
      else if eof t then Some (Inr 0, t)
      else
        Option.bind (complete_io S t) (\<lambda>(p, t).
        case check_would_block p of
          Inl e \<Rightarrow> Some (Inl e, t)
        | Inr _ \<Rightarrow>
            (case sess_write S buf (session t) of
               (Inl e, s) \<Rightarrow> Some (Inl e, t\<lparr>session := s\<rparr>)
             | (Inr n, s) \<Rightarrow>
                 Option.bind (check_write S (t\<lparr>session := s\<rparr>)) (\<lambda>(p, t).
                 Some (case check_would_block p of Inl e \<Rightarrow> Inl e | Inr _ \<Rightarrow> Inr n, t)))))"

definition tls_flush ::
  "('n, 's) tls_ops \<Rightarrow> ('n, 's) tls_stream \<Rightarrow> ((io_error + unit) \<times> ('n, 's) tls_stream) option" where
  "tls_flush S t =
     Option.bind (check_write S t) (\<lambda>(p, t). Some (check_would_block p, t))"

text \<open>\<open>Async::NotReady\<close> is \<open>Pending\<close>.\<close>

definition tls_shutdown ::
  "('n, 's) tls_ops \<Rightarrow> ('n, 's) tls_stream \<Rightarrow> (io_poll \<times> ('n, 's) tls_stream) option" where
  "tls_shutdown S t =
     (case async_shutdown S (sock t) of
        (Inl e, k) \<Rightarrow> Some (Ready (Inl e), t\<lparr>sock := k\<rparr>)
      | (Inr _, k) \<Rightarrow> complete_io S (t\<lparr>sock := k\<rparr>))"

definition tls_l_addr :: "('n, 's) tls_ops \<Rightarrow> ('n, 's) tls_stream \<Rightarrow> io_error + req_addr" where
  "tls_l_addr S t = map_sum id from_addr (sock_local_addr S (sock t))"

definition tls_p_addr :: "('n, 's) tls_ops \<Rightarrow> ('n, 's) tls_stream \<Rightarrow> io_error + req_addr" where
  "tls_p_addr S t = map_sum id from_addr (sock_peer_addr S (sock t))"

section \<open>The loops\<close>

lemma check_read_ends_right:
  assumes "check_read S t = Some (r, t')"
  shows "(r = Ready (Inr ()) \<longrightarrow> eof t' \<or> \<not> wants_read S (session t')) \<and> (eof t \<longrightarrow> eof t')"
proof -
  let ?P = "\<lambda>S t res. (fst res = Ready (Inr ()) \<longrightarrow> eof (snd res) \<or> \<not> wants_read S (session (snd res))) \<and>
    (eof t \<longrightarrow> eof (snd res))"
  have "?P S t (r, t')"
    by (rule check_read.raw_induct [where P = ?P, OF _ assms])
      (auto split: if_splits prod.splits sum.splits)
  then show ?thesis by simp
qed

lemma check_write_ends_right:
  assumes "check_write S t = Some (r, t')"
  shows "(r = Ready (Inr ()) \<longrightarrow> \<not> wants_write S (session t')) \<and> eof t' = eof t"
proof -
  let ?P = "\<lambda>S t res. (fst res = Ready (Inr ()) \<longrightarrow> \<not> wants_write S (session (snd res))) \<and>
    eof (snd res) = eof t"
  have "?P S t (r, t')"
    by (rule check_write.raw_induct [where P = ?P, OF _ assms])
      (fastforce split: if_splits prod.splits sum.splits)
  then show ?thesis by simp
qed

lemma complete_io_parts:
  "complete_io S t = Some (p, t2) \<longleftrightarrow> (\<exists>r t1 w. check_read S t = Some (r, t1) \<and>
     check_write S t1 = Some (w, t2) \<and> p = (case (r, w) of
         (Ready (Inr _), Ready (Inr _)) \<Rightarrow> Ready (Inr ())
       | (Ready (Inl e), _) \<Rightarrow> Ready (Inl e)
       | (_, Ready (Inl e)) \<Rightarrow> Ready (Inl e)
       | _ \<Rightarrow> if is_handshaking S (session t2) then Pending else Ready (Inr ())))"
  by (auto simp: complete_io_def bind_eq_Some_conv)

section \<open>What the session promises\<close>

text \<open>
  \<open>accepted\<close> is the plaintext the session has taken to be sent: only the session's \<open>write\<close>
  adds to it, and it adds the prefix it reports.
\<close>

locale tls_session =
  fixes S :: "('n, 's) tls_ops" and accepted :: "'s \<Rightarrow> u8 list"
  assumes read_keeps: "read_tls S k s = (r, k', s') \<Longrightarrow> accepted s' = accepted s"
    and write_keeps: "write_tls S k s = (r, k', s') \<Longrightarrow> accepted s' = accepted s"
    and process_keeps: "process_new_packets S s = (r', s') \<Longrightarrow> accepted s' = accepted s"
    and write_takes: "sess_write S buf s = (Inr n, s') \<Longrightarrow>
      n \<le> length buf \<and> accepted s' = accepted s @ take n buf"
    and write_fails: "sess_write S buf s = (Inl e, s') \<Longrightarrow> accepted s' = accepted s"
begin

lemma check_read_keeps:
  assumes "check_read S t = Some (r, t')"
  shows "accepted (session t') = accepted (session t)"
proof -
  let ?P = "\<lambda>S' t res. S' = S \<longrightarrow> accepted (session (snd res)) = accepted (session t)"
  have "?P S t (r, t')"
    by (rule check_read.raw_induct [where P = ?P, OF _ assms])
      (fastforce dest: read_keeps process_keeps split: if_splits prod.splits sum.splits)
  then show ?thesis by simp
qed

lemma check_write_keeps:
  assumes "check_write S t = Some (r, t')"
  shows "accepted (session t') = accepted (session t)"
proof -
  let ?P = "\<lambda>S' t res. S' = S \<longrightarrow> accepted (session (snd res)) = accepted (session t)"
  have "?P S t (r, t')"
    by (rule check_write.raw_induct [where P = ?P, OF _ assms])
      (fastforce dest: write_keeps split: if_splits prod.splits sum.splits)
  then show ?thesis by simp
qed

lemma complete_io_keeps:
  "complete_io S t = Some (p, t') \<Longrightarrow> accepted (session t') = accepted (session t)"
  by (auto simp: complete_io_parts dest!: check_read_keeps check_write_keeps)

lemma tls_write_takes:
  assumes "tls_write S buf t = Some (r, t')"
  shows "\<exists>n. n \<le> length buf \<and> accepted (session t') = accepted (session t) @ take n buf \<and>
    (\<forall>m. r = Inr m \<longrightarrow> m = n)"
proof -
  show ?thesis
  proof (cases "buf = [] \<or> eof t")
    case True
    with assms show ?thesis
      by (auto simp: tls_write_def split: if_splits prod.splits sum.splits)
  next
    case False
    with assms obtain p t1 where io: "complete_io S t = Some (p, t1)"
      by (auto simp: tls_write_def bind_eq_Some_conv)
    note keep = complete_io_keeps [OF io]
    show ?thesis
    proof (cases "check_would_block p")
      case (Inl e)
      with assms False io keep show ?thesis by (auto simp: tls_write_def)
    next
      case (Inr u)
      obtain a s where w: "sess_write S buf (session t1) = (a, s)"
        by (cases "sess_write S buf (session t1)") auto
      show ?thesis
      proof (cases a)
        case e: (Inl e)
        with assms False io keep Inr w write_fails [of buf "session t1" e s] show ?thesis
          by (auto simp: tls_write_def)
      next
        case n: (Inr n)
        with assms False io Inr w obtain q where
          q: "check_write S (t1\<lparr>session := s\<rparr>) = Some (q, t')"
            "r = (case check_would_block q of Inl e \<Rightarrow> Inl e | Inr _ \<Rightarrow> Inr n)"
          by (auto simp: tls_write_def bind_eq_Some_conv)
        with check_write_keeps [OF q(1)] write_takes [of buf "session t1" n s] w n keep show ?thesis
          by (auto intro!: exI [of _ n] split: sum.splits)
      qed
    qed
  qed
qed

end

text \<open>
  For the loops to return, every non-empty read brings the end of what the socket holds
  nearer, and every write shrinks the backlog of the session.
\<close>

locale tls_progress =
  fixes S :: "('n, 's) tls_ops" and ahead :: "'n \<Rightarrow> 's \<Rightarrow> nat" and backlog :: "'s \<Rightarrow> nat"
  assumes read_progress: "wants_read S s \<Longrightarrow> read_tls S k s = (Inr n, k', s') \<Longrightarrow> n \<noteq> 0 \<Longrightarrow>
      process_new_packets S s' = (Inr u, s'') \<Longrightarrow> ahead k' s'' < ahead k s"
    and write_progress: "wants_write S s \<Longrightarrow> write_tls S k s = (Inr n, k', s') \<Longrightarrow>
      backlog s' < backlog s"
begin

lemma check_read_returns: "\<exists>r. check_read S t = Some r"
proof (induction t rule: measure_induct_rule [where f = "\<lambda>t. ahead (sock t) (session t)"])
  case (less t)
  show ?case
    using less.IH read_progress
    by (subst check_read.simps) (fastforce split: prod.split sum.split)
qed

lemma check_write_returns: "\<exists>r. check_write S t = Some r"
proof (induction t rule: measure_induct_rule [where f = "\<lambda>t. backlog (session t)"])
  case (less t)
  show ?case
    using less.IH write_progress
    by (subst check_write.simps) (fastforce split: prod.split sum.split)
qed

lemma complete_io_returns: "\<exists>r. complete_io S t = Some r"
proof -
  obtain r t1 where r: "check_read S t = Some (r, t1)"
    using check_read_returns [of t] by auto
  obtain w t2 where "check_write S t1 = Some (w, t2)"
    using check_write_returns [of t1] by auto
  with r show ?thesis by (simp add: complete_io_def)
qed

lemma tls_write_returns: "\<exists>r. tls_write S buf t = Some r"
proof -
  obtain p t1 where p: "complete_io S t = Some (p, t1)"
    using complete_io_returns [of t] by auto
  obtain a s where a: "sess_write S buf (session t1) = (a, s)"
    by (cases "sess_write S buf (session t1)") auto
  obtain w t2 where "check_write S (t1\<lparr>session := s\<rparr>) = Some (w, t2)"
    using check_write_returns [of "t1\<lparr>session := s\<rparr>"] by auto
  with p a show ?thesis
    by (auto simp: tls_write_def split: prod.split sum.split)
qed

end

section \<open>A session in memory\<close>

text \<open>
  A session that does not encrypt, over a socket that delivers a list of chunks (an empty
  chunk is the end of the stream) and takes \<open>room\<close> bytes before it blocks.
\<close>

record mem_socket =
  chunks :: "u8 list list"
  taken :: "u8 list"
  room :: nat

record mem_session =
  raw_in :: "u8 list"
  plain_in :: "u8 list"
  raw_out :: "u8 list"
  plain_out :: "u8 list"

definition mem_tls :: "(mem_socket, mem_session) tls_ops" where
  "mem_tls =
     \<lparr>wants_read = \<lambda>s. plain_in s = [],
      wants_write = \<lambda>s. raw_out s \<noteq> [],
      is_handshaking = \<lambda>_. False,
      read_tls = \<lambda>k s.
        (case chunks k of
           [] \<Rightarrow> (Inl (io_of_kind KWouldBlock), k, s)
         | c # cs \<Rightarrow> (Inr (length c), k\<lparr>chunks := cs\<rparr>, s\<lparr>raw_in := raw_in s @ c\<rparr>)),
      write_tls = \<lambda>k s.
        (if room k = 0 then (Inl (io_of_kind KWouldBlock), k, s)
         else (Inr (min (room k) (length (raw_out s))),
               k\<lparr>taken := taken k @ take (room k) (raw_out s), room := room k - length (raw_out s)\<rparr>,
               s\<lparr>raw_out := drop (room k) (raw_out s)\<rparr>)),
      process_new_packets = \<lambda>s. (Inr (), s\<lparr>plain_in := plain_in s @ raw_in s, raw_in := []\<rparr>),
      sess_read = \<lambda>n s. (Inr (take n (plain_in s)), s\<lparr>plain_in := drop n (plain_in s)\<rparr>),
      sess_write = \<lambda>buf s. (Inr (length buf),
        s\<lparr>raw_out := raw_out s @ buf, plain_out := plain_out s @ buf\<rparr>),
      shutdown_write = \<lambda>k. (Inr (), k),
      async_shutdown = \<lambda>k. (Inr (), k),
      sock_local_addr = \<lambda>_. Inr (socket_addr (V4 (Ipv4 127 0 0 1)) 8443),
      sock_peer_addr = \<lambda>_. Inr (socket_addr (V4 (Ipv4 127 0 0 1)) 50000)\<rparr>"

interpretation mem_tls: tls_session mem_tls plain_out
  by unfold_locales (auto simp: mem_tls_def split: if_splits list.splits)

interpretation mem_tls_runs: tls_progress mem_tls "\<lambda>k _. length (chunks k)" "\<lambda>s. length (raw_out s)"
  by unfold_locales (auto simp: mem_tls_def split: if_splits list.splits)

definition mem_tls_of :: "u8 list list \<Rightarrow> nat \<Rightarrow> (mem_socket, mem_session) tls_stream" where
  "mem_tls_of cs n = tls_new \<lparr>chunks = cs, taken = [], room = n\<rparr>
     \<lparr>raw_in = [], plain_in = [], raw_out = [], plain_out = []\<rparr>"

lemma mem_tls_sel [simp]:
  "wants_read mem_tls s = (plain_in s = [])"
  "wants_write mem_tls s = (raw_out s \<noteq> [])"
  "is_handshaking mem_tls s = False"
  "read_tls mem_tls k s = (case chunks k of
     [] \<Rightarrow> (Inl (io_of_kind KWouldBlock), k, s)
   | c # cs \<Rightarrow> (Inr (length c), k\<lparr>chunks := cs\<rparr>, s\<lparr>raw_in := raw_in s @ c\<rparr>))"
  "write_tls mem_tls k s = (if room k = 0 then (Inl (io_of_kind KWouldBlock), k, s)
     else (Inr (min (room k) (length (raw_out s))),
       k\<lparr>taken := taken k @ take (room k) (raw_out s), room := room k - length (raw_out s)\<rparr>,
       s\<lparr>raw_out := drop (room k) (raw_out s)\<rparr>))"
  "sess_read mem_tls n s = (Inr (take n (plain_in s)), s\<lparr>plain_in := drop n (plain_in s)\<rparr>)"
  "sess_write mem_tls buf s = (Inr (length buf),
     s\<lparr>raw_out := raw_out s @ buf, plain_out := plain_out s @ buf\<rparr>)"
  by (simp_all add: mem_tls_def)

lemmas mem_tls_run = mem_tls_of_def tls_new_def check_read.simps [of mem_tls]
  check_write.simps [of mem_tls] complete_io_def check_would_block_def io_of_kind_def

section \<open>Properties\<close>

text \<open>
  C35. The two loops of the stream, and with them every operation, return, as long as each
  non-empty read and each write makes progress: there is no input on which \<open>read\<close>, \<open>write\<close>,
  \<open>flush\<close> or \<open>shutdown\<close> spins.
\<close>

theorem tls_operations_return:
  assumes "tls_progress S ahead backlog"
  shows "\<exists>r w f d. tls_read S n t = Some r \<and> tls_write S buf t = Some w \<and> tls_flush S t = Some f \<and>
    tls_shutdown S t = Some d"
proof -
  note C = tls_progress.complete_io_returns [OF assms]
  obtain r where "complete_io S t = Some r" using C by blast
  moreover obtain f where "check_write S t = Some f"
    using tls_progress.check_write_returns [OF assms] by blast
  moreover obtain w where "tls_write S buf t = Some w"
    using tls_progress.tls_write_returns [OF assms] by blast
  moreover obtain d where "tls_shutdown S t = Some d"
    using C by (fastforce simp: tls_shutdown_def split: prod.split sum.split)
  ultimately show ?thesis
    by (auto simp: tls_read_def tls_flush_def split: prod.split)
qed

theorem tls_operations_return_witness:
  "\<exists>r w f d. tls_read mem_tls 10 (mem_tls_of [[1, 2]] 3) = Some r \<and>
    tls_write mem_tls [7] (mem_tls_of [[1, 2]] 3) = Some w \<and>
    tls_flush mem_tls (mem_tls_of [[1, 2]] 3) = Some f \<and>
    tls_shutdown mem_tls (mem_tls_of [[1, 2]] 3) = Some d"
  by (rule tls_operations_return [OF mem_tls_runs.tls_progress_axioms])

text \<open>
  \<open>read\<close> returns zero bytes exactly at the end of the stream: when the session has nothing
  to give the answer is "would block", so a reader never takes a pause for the end.
\<close>

lemma zero_read_is_eof:
  assumes "tls_read S n t = Some (Inr bs, t')"
  shows "bs = [] \<longleftrightarrow> eof t'"
  using assms
  by (auto simp: tls_read_def bind_eq_Some_conv split: if_splits sum.splits prod.splits)

text \<open>
  C36. A \<open>write\<close> that reports \<open>n\<close> bytes has handed exactly the first \<open>n\<close> bytes of the buffer to
  the session, and a failed one at most a prefix of it.
\<close>

theorem write_reports_accepted:
  assumes "tls_session S accepted" and "tls_write S buf t = Some (r, t')"
  shows "\<exists>n. n \<le> length buf \<and> accepted (session t') = accepted (session t) @ take n buf \<and>
    (\<forall>m. r = Inr m \<longrightarrow> m = n)"
  by (rule tls_session.tls_write_takes [OF assms])

theorem write_reports_accepted_witness:
  "\<exists>n t'. tls_write mem_tls [7, 8] (mem_tls_of [] 3) = Some (Inr 2, t') \<and>
    plain_out (session t') = take n [7, 8] \<and> n = 2"
proof -
  obtain t' where run: "tls_write mem_tls [7, 8] (mem_tls_of [] 3) = Some (Inr 2, t')"
    by (simp add: tls_write_def mem_tls_run)
  from write_reports_accepted [OF mem_tls.tls_session_axioms run] run show ?thesis
    by (auto simp: mem_tls_of_def tls_new_def)
qed

text \<open>
  A blocked \<open>write\<close> is not undone: when the session takes the bytes and the socket then
  blocks, \<open>write\<close> answers "would block" although the bytes will be sent, so a caller that
  tries the same buffer again, as the contract of \<open>WouldBlock\<close> tells it to, sends them twice.
\<close>

lemma blocked_write_is_taken:
  assumes "tls_session S accepted" and "buf \<noteq> []" and "\<not> eof t"
    and "complete_io S t = Some (Ready (Inr ()), t1)"
    and "sess_write S buf (session t1) = (Inr n, s)"
    and "check_write S (t1\<lparr>session := s\<rparr>) = Some (Pending, t2)"
  shows "tls_write S buf t = Some (Inl (io_of_kind KWouldBlock), t2) \<and>
    accepted (session t2) = accepted (session t) @ take n buf"
  using assms(2-6) tls_session.complete_io_keeps [OF assms(1,4)]
    tls_session.write_takes [OF assms(1,5)] tls_session.check_write_keeps [OF assms(1,6)]
  by (simp add: tls_write_def check_would_block_def)

end
