(* ===== verification/Stream_Wrap.thy ===== *)
theory Stream_Wrap
  imports Std_Net
begin

text \<open>
  \<open>src/stream_wrap.rs\<close>: a reader with bytes that have been read before. The inner reader is a
  parameter, a read of at most \<open>n\<close> bytes on its state.
\<close>

type_synonym 'r reading = "nat \<Rightarrow> 'r \<Rightarrow> (io_error + u8 list) \<times> 'r"

record 'r preread =
  pre :: "u8 list"
  inner :: 'r

definition preread_new :: "u8 list \<Rightarrow> 'r \<Rightarrow> 'r preread" where
  "preread_new bs r = \<lparr>pre = bs, inner = r\<rparr>"

definition preread_read :: "'r reading \<Rightarrow> ('r preread, io_error, u8 list) io" where
  "preread_read rd p =
     (case rd 4096 (inner p) of
        (Inl e, r) \<Rightarrow> (Inl (Raise e), p\<lparr>inner := r\<rparr>)
      | (Inr v, r) \<Rightarrow> (Inr (pre p @ v), p\<lparr>pre := [], inner := r\<rparr>))"

text \<open>Reading on and on, past errors: everything a caller gets, and what the inner reader gave.\<close>

primrec read_times :: "('s, 'e, u8 list) io \<Rightarrow> nat \<Rightarrow> 's \<Rightarrow> u8 list \<times> 's" where
  "read_times m 0 s = ([], s)"
| "read_times m (Suc n) s =
     (case m s of
        (Inr v, s') \<Rightarrow> (case read_times m n s' of (w, s'') \<Rightarrow> (v @ w, s''))
      | (Inl _, s') \<Rightarrow> read_times m n s')"

definition inner_read :: "'r reading \<Rightarrow> ('r, io_error, u8 list) io" where
  "inner_read rd r = (case rd 4096 r of (Inl e, r') \<Rightarrow> (Inl (Raise e), r') | (Inr v, r') \<Rightarrow> (Inr v, r'))"

lemma read_times_preread:
  "read_times (preread_read rd) n p = (out, p') \<Longrightarrow>
   read_times (inner_read rd) n (inner p) = (w, r) \<Longrightarrow>
   out @ pre p' = pre p @ w \<and> inner p' = r"
proof (induction n arbitrary: p out w)
  case 0
  then show ?case by auto
next
  case (Suc n)
  obtain a r1 where rd: "rd 4096 (inner p) = (a, r1)" by (cases "rd 4096 (inner p)") auto
  show ?case
  proof (cases a)
    case (Inl e)
    with Suc.prems rd Suc.IH [of "p\<lparr>inner := r1\<rparr>" out w] show ?thesis
      by (simp add: preread_read_def inner_read_def)
  next
    case (Inr v)
    with Suc.prems rd Suc.IH [of "p\<lparr>pre := [], inner := r1\<rparr>"] show ?thesis
      by (auto simp: preread_read_def inner_read_def split: prod.splits)
  qed
qed

text \<open>
  A wrapped reader is the inner reader with the bytes read before put in front: after any
  number of reads, failed ones included, what the caller got followed by what is still kept is
  the bytes read before followed by what the inner reader gave. Nothing is lost, repeated or
  reordered.
\<close>

lemma preread_in_front:
  assumes "read_times (preread_read rd) n (preread_new bs r0) = (out, p')"
    and "read_times (inner_read rd) n r0 = (w, r)"
  shows "out @ pre p' = bs @ w \<and> inner p' = r"
  using read_times_preread [OF assms(1), of w r] assms(2) by (simp add: preread_new_def)

text \<open>An inner reader over a list of results.\<close>

definition list_read :: "(io_error + u8 list) list reading" where
  "list_read n r = (case r of [] \<Rightarrow> (Inr [], []) | x # xs \<Rightarrow> (x, xs))"

end
