(* ===== verification/Std_Num.thy ===== *)
theory Std_Num
  imports Std_Ip
begin

text \<open>
  \<open>str::parse\<close> of Rust's unsigned integers, a result below \<open>bound\<close> or the parse error \<open>None\<close>:
  one leading plus sign is skipped unless it is the whole text, then decimal digits are read
  and checked against the bound one by one.
\<close>

fun dec_value :: "nat \<Rightarrow> nat \<Rightarrow> rstring \<Rightarrow> nat option" where
  "dec_value bound acc [] = Some acc"
| "dec_value bound acc (c # cs) =
     (case digit_of 10 c of
        None \<Rightarrow> None
      | Some d \<Rightarrow> if acc * 10 + d < bound then dec_value bound (acc * 10 + d) cs else None)"

definition parse_unsigned :: "nat \<Rightarrow> rstring \<Rightarrow> nat option" where
  "parse_unsigned bound s =
     (let s = (case s of c # d # cs \<Rightarrow> if c = 43 then d # cs else s | _ \<Rightarrow> s) in
      if s = [] then None else dec_value bound 0 s)"

section \<open>Numbers as text\<close>

lemma dec_value_append:
  "dec_value bound acc (xs @ ys) = Option.bind (dec_value bound acc xs) (\<lambda>a. dec_value bound a ys)"
  by (induction bound acc xs rule: dec_value.induct) (auto split: option.split)

lemma digit_of_char:
  assumes "d < 10" shows "digit_of 10 (of_char (char_of (48 + d))) = Some d"
proof -
  have "d = 0 \<or> d = 1 \<or> d = 2 \<or> d = 3 \<or> d = 4 \<or> d = 5 \<or> d = 6 \<or> d = 7 \<or> d = 8 \<or> d = 9"
    using assms by arith
  then show ?thesis
    by (auto simp: digit_of_def char_of_def of_char_def bit_simps)
qed

lemma dec_value_show_nat: "n < bound \<Longrightarrow> dec_value bound 0 (bytes_of (show_nat n)) = Some n"
proof (induction n rule: show_nat.induct)
  case (1 n)
  show ?case
  proof (cases "n < 10")
    case True
    with 1(2) show ?thesis
      by (simp add: show_nat.simps [of n] bytes_of_def digit_of_char)
  next
    case False
    with 1 have "dec_value bound 0 (bytes_of (show_nat (n div 10))) = Some (n div 10)" by simp
    moreover have "n div 10 * 10 + n mod 10 = n" by simp
    ultimately show ?thesis
      using False 1(2)
      by (simp add: show_nat.simps [of n] bytes_of_def dec_value_append digit_of_char)
  qed
qed

lemma plus_no_digit: "digit_of 10 43 = None"
  by (simp add: digit_of_def Let_def)

lemma parse_unsigned_show:
  assumes "n < bound" shows "parse_unsigned bound (bytes_of (show_nat n)) = Some n"
proof -
  let ?s = "bytes_of (show_nat n)"
  have v: "dec_value bound 0 ?s = Some n"
    using assms by (rule dec_value_show_nat)
  then have "\<not> (\<exists>cs. ?s = 43 # cs)" by (auto simp: plus_no_digit)
  moreover have "?s \<noteq> []"
    by (simp add: bytes_of_def show_nat.simps [of n])
  ultimately show ?thesis
    using v by (auto simp: parse_unsigned_def Let_def split: list.split)
qed

lemma parse_u16_show: "parse_unsigned 65536 (bytes_of (show_nat (unat (p :: u16)))) = Some (unat p)"
proof -
  have "unat p < 2 ^ LENGTH(16)" by (rule unsigned_less)
  then show ?thesis by (intro parse_unsigned_show) simp
qed

end
