(* ===== verification/Actix_App.thy ===== *)
theory Actix_App
  imports Req_Addr Std_Num Future_Ext
begin

text \<open>
  \<open>src/rocks/actix_app.rs\<close>: the requests of a tunnelled client, as URL-encoded forms. The form
  decoder, \<open>Uuid::parse_str\<close>, the response channel and tokio's \<open>Timeout\<close> are parameters; the
  sender of the channel is carried along unchanged. The queue between the handler and its
  consumer is a list.
\<close>

datatype http_method = GET | POST | OtherMethod

datatype ('u, 'r) rocks_packet =
    PktGet 'u 'r
  | PktPost 'u 'r
  | PktConnect 'u req_addr 'r

datatype packet_error = UuidError string | ParseIntError | PacketMessage string | FormError string |
  TimerError string

definition packet_new ::
  "(rstring \<Rightarrow> string + 'u) \<Rightarrow> http_method \<Rightarrow> (rstring \<rightharpoonup> rstring) \<Rightarrow> 'r \<Rightarrow>
   packet_error + ('u, 'r) rocks_packet" where
  "packet_new parse_uuid m form resp =
     (let uuid = (\<lambda>s. case parse_uuid s of Inl e \<Rightarrow> Inl (UuidError e) | Inr u \<Rightarrow> Inr u) in
      case (form (bytes_of ''user''), form (bytes_of ''host''), form (bytes_of ''port''),
            form (bytes_of ''conn'')) of
        (Some user, Some host, Some p, None) \<Rightarrow>
          (case uuid user of Inl e \<Rightarrow> Inl e | Inr u \<Rightarrow>
          (case parse_unsigned 65536 p of None \<Rightarrow> Inl ParseIntError | Some n \<Rightarrow> let p = of_nat n in
            Inr (case parse_ip host of
                Some h \<Rightarrow> PktConnect u (from_addr (socket_addr h p)) resp
              | None \<Rightarrow> PktConnect u (from_domain host p) resp)))
      | (None, None, None, Some conn) \<Rightarrow>
          (case m of
             GET \<Rightarrow> (case uuid conn of Inl e \<Rightarrow> Inl e | Inr u \<Rightarrow> Inr (PktGet u resp))
           | POST \<Rightarrow> (case uuid conn of Inl e \<Rightarrow> Inl e | Inr u \<Rightarrow> Inr (PktPost u resp))
           | OtherMethod \<Rightarrow> Inl (PacketMessage ''Unreconised package format''))
      | _ \<Rightarrow> Inl (PacketMessage ''Unreconised package format''))"

text \<open>The part of \<open>rocks_handler_impl\<close> up to the wait for the answer: the packet is queued.\<close>

definition enqueue_request ::
  "(rstring \<Rightarrow> string + 'u) \<Rightarrow> http_method \<Rightarrow> string + (rstring \<rightharpoonup> rstring) \<Rightarrow> 'r \<Rightarrow>
   (('u, 'r) rocks_packet list, packet_error, unit) io" where
  "enqueue_request parse_uuid m form resp q =
     (case form of
        Inl e \<Rightarrow> (Inl (Raise (FormError e)), q)
      | Inr f \<Rightarrow>
          (case packet_new parse_uuid m f resp of
             Inl e \<Rightarrow> (Inl (Raise e), q)
           | Inr p \<Rightarrow> (Inr (), q @ [p])))"

text \<open>\<open>SegQueueFuture\<close> is ready with the first element, when there is one.\<close>

definition queue_poll :: "('a list, 'a) poller" where
  "queue_poll q = Some (case q of [] \<Rightarrow> (Pending, []) | x # xs \<Rightarrow> (Ready x, xs))"

text \<open>
  \<open>ReceiverFuture\<close>: an error of \<open>try_recv\<close> is \<open>Pending\<close>, also that of a channel whose sender is
  gone. \<open>FutureWrapper\<close> turns a future of the standard library into one of tokio's.
\<close>

datatype recv_error = EmptyChannel | Disconnected

definition receiver_poll :: "('c \<Rightarrow> (recv_error + 'v) \<times> 'c) \<Rightarrow> ('c, 'v) poller" where
  "receiver_poll try_recv c =
     Some (case try_recv c of (Inr t, c) \<Rightarrow> (Ready t, c) | (Inl _, c) \<Rightarrow> (Pending, c))"

definition wrapper_poll :: "('s, 'v) poller \<Rightarrow> ('s, 'e + 'v) poller" where
  "wrapper_poll p s =
     (case p s of
        None \<Rightarrow> None
      | Some (Ready v, s) \<Rightarrow> Some (Ready (Inr v), s)
      | Some (Pending, s) \<Rightarrow> Some (Pending, s))"

text \<open>
  The future inside the timeout: it waits for the form, queues the packet, and goes on to the
  answer in the same poll. \<open>chan\<close> is the channel \<open>bounded(1)\<close> makes. The queue is part of the
  state.
\<close>

datatype ('u, 'c) handler_phase = Decoding 'u | Waiting 'c | Finished

fun handler_poll ::
  "('d, string + (rstring \<rightharpoonup> rstring)) poller \<Rightarrow> ('c \<Rightarrow> (recv_error + 'v) \<times> 'c) \<Rightarrow>
   (rstring \<Rightarrow> string + 'u) \<Rightarrow> http_method \<Rightarrow> 'r \<times> 'c \<Rightarrow>
   (('d, 'c) handler_phase \<times> ('u, 'r) rocks_packet list, packet_error + 'v) poller" where
  "handler_poll decode try_recv parse_uuid m chan (Waiting c, q) =
     (case wrapper_poll (receiver_poll try_recv) c of
        None \<Rightarrow> None
      | Some (Ready r, c) \<Rightarrow> Some (Ready r, (Finished, q))
      | Some (Pending, c) \<Rightarrow> Some (Pending, (Waiting c, q)))"
| "handler_poll decode try_recv parse_uuid m chan (Decoding d, q) =
     (case decode d of
        None \<Rightarrow> None
      | Some (Pending, d) \<Rightarrow> Some (Pending, (Decoding d, q))
      | Some (Ready form, _) \<Rightarrow>
          (case enqueue_request parse_uuid m form (fst chan) q of
             (Inl Panic, q) \<Rightarrow> None
           | (Inl (Raise e), q) \<Rightarrow> Some (Ready (Inl e), (Finished, q))
           | (Inr _, q) \<Rightarrow>
               (case wrapper_poll (receiver_poll try_recv) (snd chan) of
                  None \<Rightarrow> None
                | Some (Ready r, c) \<Rightarrow> Some (Ready r, (Finished, q))
                | Some (Pending, c) \<Rightarrow> Some (Pending, (Waiting c, q)))))"
| "handler_poll decode try_recv parse_uuid m chan (Finished, q) = None"

datatype 'e timeout_error = TimeoutInner 'e | TimeoutElapsed | TimeoutTimer string

definition handler_error :: "packet_error timeout_error \<Rightarrow> packet_error" where
  "handler_error e =
     (case e of
        TimeoutInner e \<Rightarrow> e
      | TimeoutElapsed \<Rightarrow> PacketMessage ''elapsed''
      | TimeoutTimer e \<Rightarrow> TimerError e)"

definition rocks_handler_impl ::
  "(('s, packet_error + 'v) poller \<Rightarrow> ('s \<times> 't, packet_error timeout_error + 'v) poller) \<Rightarrow>
   ('s, packet_error + 'v) poller \<Rightarrow> ('s \<times> 't, packet_error + 'v) poller" where
  "rocks_handler_impl timeout receiver st =
     (case timeout receiver st of
        None \<Rightarrow> None
      | Some (Ready r, st) \<Rightarrow> Some (Ready (map_sum handler_error id r), st)
      | Some (Pending, st) \<Rightarrow> Some (Pending, st))"

text \<open>The page \<open>test\<close>, which any request gets.\<close>

definition test_page :: "'rq \<Rightarrow> string" where
  "test_page rq = ''Hello''"

text \<open>
  \<open>rocks_handler\<close> gives the answer as \<open>Bytes\<close>; \<open>dbg!\<close> hands the error on, and the responder
  is actix's.
\<close>

definition rocks_handler ::
  "('v \<Rightarrow> 'w) \<Rightarrow> (('s, packet_error + 'v) poller \<Rightarrow> ('s \<times> 't, packet_error timeout_error + 'v) poller) \<Rightarrow>
   ('s, packet_error + 'v) poller \<Rightarrow> ('s \<times> 't, packet_error + 'w) poller" where
  "rocks_handler bytes_from timeout receiver st =
     (case rocks_handler_impl timeout receiver st of
        None \<Rightarrow> None
      | Some (Ready r, st) \<Rightarrow> Some (Ready (map_sum id bytes_from r), st)
      | Some (Pending, st) \<Rightarrow> Some (Pending, st))"

section \<open>The handler as a future\<close>

lemma rocks_handler_answers:
  "drive (rocks_handler bytes_from timeout receiver) k st =
     map_option (map_sum id bytes_from) (drive (rocks_handler_impl timeout receiver) k st)"
  by (induction k arbitrary: st) (auto simp: rocks_handler_def split: option.split poll.split)

text \<open>What a decoded form is answered with: the error it contains, or the packet it is.\<close>

definition request_of ::
  "(rstring \<Rightarrow> string + 'u) \<Rightarrow> http_method \<Rightarrow> string + (rstring \<rightharpoonup> rstring) \<Rightarrow> 'r \<Rightarrow>
   packet_error + ('u, 'r) rocks_packet" where
  "request_of parse_uuid m form resp =
     (case form of Inl e \<Rightarrow> Inl (FormError e) | Inr f \<Rightarrow> packet_new parse_uuid m f resp)"

lemma enqueue_request_spec:
  "enqueue_request parse_uuid m form resp q =
     (case request_of parse_uuid m form resp of
        Inl e \<Rightarrow> (Inl (Raise e), q)
      | Inr p \<Rightarrow> (Inr (), q @ [p]))"
  by (simp add: enqueue_request_def request_of_def split: sum.split)

text \<open>A request whose packet is dropped unanswered is not told so: its future stays pending.\<close>

lemma dropped_request_pends:
  assumes "\<And>c. gone c \<Longrightarrow> \<exists>c'. try_recv c = (Inl Disconnected, c') \<and> gone c'" and "gone c"
  shows "drive (receiver_poll try_recv) k c = None"
  using assms(2)
proof (induction k arbitrary: c)
  case (Suc k)
  from assms(1) [OF Suc.prems] obtain c' where "try_recv c = (Inl Disconnected, c')" "gone c'" by blast
  with Suc.IH show ?case by (simp add: receiver_poll_def)
qed simp

lemma wrapped_future:
  assumes "future p alive delay result"
  shows "future (wrapper_poll p) alive delay (\<lambda>s. Inr (result s))"
proof
  fix s n
  assume "alive s" "delay s = Suc n"
  with future.waits [OF assms this]
  show "\<exists>s'. wrapper_poll p s = Some (Pending, s') \<and> alive s' \<and> delay s' = n \<and>
      Inr (result s') = Inr (result s)"
    by (auto simp: wrapper_poll_def)
next
  fix s
  assume "alive s" "delay s = 0"
  with future.ready [OF assms this] show "\<exists>s'. wrapper_poll p s = Some (Ready (Inr (result s)), s')"
    by (auto simp: wrapper_poll_def)
qed

fun handler_alive ::
  "('d \<Rightarrow> bool) \<Rightarrow> ('c \<Rightarrow> bool) \<Rightarrow> 'c \<Rightarrow> ('d, 'c) handler_phase \<times> 'q \<Rightarrow> bool" where
  "handler_alive form_alive answer_alive c0 (Decoding d, q) \<longleftrightarrow> form_alive d \<and> answer_alive c0"
| "handler_alive form_alive answer_alive c0 (Waiting c, q) \<longleftrightarrow> answer_alive c"
| "handler_alive form_alive answer_alive c0 (Finished, q) \<longleftrightarrow> False"

fun handler_delay ::
  "('d \<Rightarrow> packet_error + 'k) \<Rightarrow> ('d \<Rightarrow> nat) \<Rightarrow> ('c \<Rightarrow> nat) \<Rightarrow> 'c \<Rightarrow> ('d, 'c) handler_phase \<times> 'q \<Rightarrow> nat" where
  "handler_delay req form_delay answer_delay c0 (Decoding d, q) =
     form_delay d + (case req d of Inl _ \<Rightarrow> 0 | Inr _ \<Rightarrow> answer_delay c0)"
| "handler_delay req form_delay answer_delay c0 (Waiting c, q) = answer_delay c"
| "handler_delay req form_delay answer_delay c0 (Finished, q) = 0"

fun handler_result ::
  "('d \<Rightarrow> packet_error + 'k) \<Rightarrow> ('c \<Rightarrow> 'v) \<Rightarrow> 'c \<Rightarrow> ('d, 'c) handler_phase \<times> 'q \<Rightarrow> packet_error + 'v" where
  "handler_result req answer_result c0 (Decoding d, q) =
     (case req d of Inl e \<Rightarrow> Inl e | Inr _ \<Rightarrow> Inr (answer_result c0))"
| "handler_result req answer_result c0 (Waiting c, q) = Inr (answer_result c)"
| "handler_result req answer_result c0 (Finished, q) = undefined"

text \<open>A form that is decoded and an answer that comes, each after some polls.\<close>

locale handler_parts =
  form: future decode form_alive form_delay form_result +
  answer: future "receiver_poll try_recv" answer_alive answer_delay answer_result
  for decode :: "('d, string + (rstring \<rightharpoonup> rstring)) poller" and form_alive form_delay form_result
    and try_recv :: "'c \<Rightarrow> (recv_error + 'v) \<times> 'c" and answer_alive answer_delay answer_result

context handler_parts
begin

lemma wrapped:
  "future (wrapper_poll (receiver_poll try_recv) :: ('c, packet_error + 'v) poller)
     answer_alive answer_delay (\<lambda>c. Inr (answer_result c))"
  by (rule wrapped_future [OF answer.future_axioms])

lemmas wrapped_waits = future.waits [OF wrapped]
lemmas wrapped_ready = future.ready [OF wrapped]

lemma handler_future:
  "future (handler_poll decode try_recv parse_uuid m chan)
     (handler_alive form_alive answer_alive (snd chan))
     (handler_delay (\<lambda>d. request_of parse_uuid m (form_result d) (fst chan)) form_delay answer_delay (snd chan))
     (handler_result (\<lambda>d. request_of parse_uuid m (form_result d) (fst chan)) answer_result (snd chan))"
proof
  let ?req = "\<lambda>d. request_of parse_uuid m (form_result d) (fst chan)"
  fix s :: "('d, 'c) handler_phase \<times> ('a, 'b) rocks_packet list" and n
  assume a: "handler_alive form_alive answer_alive (snd chan) s"
    "handler_delay ?req form_delay answer_delay (snd chan) s = Suc n"
  obtain ph q where s: "s = (ph, q)" by fastforce
  show "\<exists>s'. handler_poll decode try_recv parse_uuid m chan s = Some (Pending, s') \<and>
      handler_alive form_alive answer_alive (snd chan) s' \<and>
      handler_delay ?req form_delay answer_delay (snd chan) s' = n \<and>
      handler_result ?req answer_result (snd chan) s' = handler_result ?req answer_result (snd chan) s"
  proof (cases ph)
    case (Waiting c)
    with a s wrapped_waits [of c n] show ?thesis by auto
  next
    case (Decoding d)
    show ?thesis
    proof (cases "form_delay d")
      case 0
      with a s Decoding obtain p where p: "?req d = Inr p" "answer_delay (snd chan) = Suc n"
        by (cases "?req d") auto
      with a s Decoding 0 form.ready [of d] wrapped_waits [of "snd chan" n] show ?thesis
        by (auto simp: enqueue_request_spec)
    next
      case (Suc i)
      with a s Decoding form.waits [of d i] show ?thesis by auto
    qed
  qed (use a s in auto)
next
  let ?req = "\<lambda>d. request_of parse_uuid m (form_result d) (fst chan)"
  fix s :: "('d, 'c) handler_phase \<times> ('a, 'b) rocks_packet list"
  assume a: "handler_alive form_alive answer_alive (snd chan) s"
    "handler_delay ?req form_delay answer_delay (snd chan) s = 0"
  obtain ph q where s: "s = (ph, q)" by fastforce
  show "\<exists>s'. handler_poll decode try_recv parse_uuid m chan s =
      Some (Ready (handler_result ?req answer_result (snd chan) s), s')"
  proof (cases ph)
    case (Waiting c)
    with a s wrapped_ready [of c] show ?thesis by auto
  next
    case (Decoding d)
    with a s form.ready [of d] wrapped_ready [of "snd chan"] show ?thesis
      by (cases "?req d") (auto simp: enqueue_request_spec)
  qed (use a s in auto)
qed

end

text \<open>
  What tokio documents of \<open>Timeout\<close>: it is the future inside until the timer, \<open>limit\<close> polls
  away, fires; a future that is ready at that poll still wins.
\<close>

locale timeout_contract =
  fixes timeout :: "('s, 'e + 'v) poller \<Rightarrow> ('s \<times> 't, 'e timeout_error + 'v) poller"
    and fresh :: "'t \<Rightarrow> bool" and limit :: "'t \<Rightarrow> nat"
  assumes timed: "future p alive delay result \<Longrightarrow>
    future (timeout p) (\<lambda>st. alive (fst st) \<and> fresh (snd st)) (\<lambda>st. min (delay (fst st)) (limit (snd st)))
      (\<lambda>st. if delay (fst st) \<le> limit (snd st) then map_sum TimeoutInner id (result (fst st))
        else Inl TimeoutElapsed)"

section \<open>Properties\<close>

text \<open>
  C40. A connect form is read back as it was written: whatever the method, a form with a user, a
  host and a decimal port, and no connection, becomes a connect packet for that user and port,
  whose address is an IP address exactly when the host parses as one and the host name itself
  otherwise.
\<close>

theorem connect_form_roundtrip:
  assumes "form (bytes_of ''user'') = Some user" and "form (bytes_of ''host'') = Some host"
    and "form (bytes_of ''port'') = Some (bytes_of (show_nat (unat p)))"
    and "form (bytes_of ''conn'') = None" and "parse_uuid user = Inr u"
  shows "packet_new parse_uuid m form resp = Inr (PktConnect u
    (case parse_ip host of Some h \<Rightarrow> IP (socket_addr h p) | None \<Rightarrow> DomainName host p) resp)"
  using assms
  by (simp add: packet_new_def parse_u16_show from_addr_def from_domain_def split: option.split)

lemma form_keys:
  "bytes_of ''user'' \<noteq> bytes_of ''host''" "bytes_of ''user'' \<noteq> bytes_of ''port''"
  "bytes_of ''host'' \<noteq> bytes_of ''port''" "bytes_of ''conn'' \<noteq> bytes_of ''user''"
  "bytes_of ''conn'' \<noteq> bytes_of ''host''" "bytes_of ''conn'' \<noteq> bytes_of ''port''"
  by (simp_all add: bytes_of_def)

theorem connect_form_roundtrip_witness:
  "packet_new (\<lambda>s. Inr (length s)) OtherMethod
     [bytes_of ''user'' \<mapsto> [1, 2], bytes_of ''host'' \<mapsto> [58, 58, 49],
      bytes_of ''port'' \<mapsto> bytes_of (show_nat (unat (443 :: u16)))] () =
   Inr (PktConnect 2 (IP (socket_addr (V6 (Ipv6 0 0 0 0 0 0 0 1)) 443)) ())"
  using connect_form_roundtrip [of "[bytes_of ''user'' \<mapsto> [1, 2], bytes_of ''host'' \<mapsto> [58, 58, 49],
      bytes_of ''port'' \<mapsto> bytes_of (show_nat (unat (443 :: u16)))]" "[1, 2]" "[58, 58, 49]" 443
      "\<lambda>s. Inr (length s)" 2 OtherMethod "()"] form_keys
  by (simp add: parse_ip_examples)

text \<open>A timeout that counts the polls down, and a channel whose answer comes after some polls.\<close>

definition count_timeout :: "('s, 'e + 'v) poller \<Rightarrow> ('s \<times> nat, 'e timeout_error + 'v) poller" where
  "count_timeout p st =
     (case st of (s, t) \<Rightarrow>
      (case p s of
         None \<Rightarrow> None
       | Some (Ready r, s) \<Rightarrow> Some (Ready (map_sum TimeoutInner id r), (s, t))
       | Some (Pending, s) \<Rightarrow>
           Some (case t of 0 \<Rightarrow> (Ready (Inl TimeoutElapsed), (s, 0)) | Suc t \<Rightarrow> (Pending, (s, t)))))"

lemma count_timed:
  fixes p :: "('s, 'e + 'v) poller"
  assumes p: "future p alive delay result"
  shows "future (count_timeout p) (\<lambda>st. alive (fst st) \<and> True) (\<lambda>st. min (delay (fst st)) (id (snd st)))
    (\<lambda>st. if delay (fst st) \<le> id (snd st) then map_sum TimeoutInner id (result (fst st))
      else Inl TimeoutElapsed)"
proof
  fix st :: "'s \<times> nat" and n
  assume st: "alive (fst st) \<and> True" "min (delay (fst st)) (id (snd st)) = Suc n"
  then obtain s d t where [simp]: "st = (s, Suc t)" and s: "alive s" "delay s = Suc d" "min d t = n"
    by (cases st; cases "delay (fst st)"; cases "snd st") auto
  from future.waits [OF p s(1,2)] obtain s' where
    "p s = Some (Pending, s')" "alive s'" "delay s' = d" "result s' = result s"
    by blast
  with s(2,3) show "\<exists>st'. count_timeout p st = Some (Pending, st') \<and> (alive (fst st') \<and> True) \<and>
      min (delay (fst st')) (id (snd st')) = n \<and>
      (if delay (fst st') \<le> id (snd st') then map_sum TimeoutInner id (result (fst st'))
       else Inl TimeoutElapsed) =
      (if delay (fst st) \<le> id (snd st) then map_sum TimeoutInner id (result (fst st))
       else Inl TimeoutElapsed)"
    by (intro exI [of _ "(s', t)"]) (simp add: count_timeout_def)
next
  fix st :: "'s \<times> nat"
  assume st: "alive (fst st) \<and> True" "min (delay (fst st)) (id (snd st)) = 0"
  obtain s t where [simp]: "st = (s, t)" by fastforce
  from st future.polled [OF p, of s]
  show "\<exists>st'. count_timeout p st = Some (Ready (if delay (fst st) \<le> id (snd st)
      then map_sum TimeoutInner id (result (fst st)) else Inl TimeoutElapsed), st')"
    by (auto simp: count_timeout_def)
qed

interpretation counting: timeout_contract count_timeout "\<lambda>_. True" id
  by (rule timeout_contract.intro) (rule count_timed)

definition script_channel :: "bool script \<Rightarrow> (recv_error + bool) \<times> bool script" where
  "script_channel c =
     (case c of
        Some (0, v) \<Rightarrow> (Inr v, None)
      | Some (Suc n, v) \<Rightarrow> (Inl EmptyChannel, Some (n, v))
      | None \<Rightarrow> (Inl Disconnected, None))"

interpretation channel: future "receiver_poll script_channel" "\<lambda>s. s \<noteq> None" script_delay script_result
  by unfold_locales (auto simp: receiver_poll_def script_channel_def script_defs)

interpretation script_parts: handler_parts script_poll "\<lambda>s. s \<noteq> None" script_delay script_result
  script_channel "\<lambda>s. s \<noteq> None" script_delay script_result
  by unfold_locales

lemma impl_future:
  assumes "future (timeout p) alive delay result"
  shows "future (rocks_handler_impl timeout p) alive delay (\<lambda>st. map_sum handler_error id (result st))"
proof
  fix s n
  assume "alive s" "delay s = Suc n"
  with future.waits [OF assms this]
  show "\<exists>s'. rocks_handler_impl timeout p s = Some (Pending, s') \<and> alive s' \<and> delay s' = n \<and>
      map_sum handler_error id (result s') = map_sum handler_error id (result s)"
    by (auto simp: rocks_handler_impl_def)
next
  fix s
  assume "alive s" "delay s = 0"
  with future.ready [OF assms this]
  show "\<exists>s'. rocks_handler_impl timeout p s = Some (Ready (map_sum handler_error id (result s)), s')"
    by (auto simp: rocks_handler_impl_def)
qed

text \<open>
  C38. A tunnelled request is answered or times out. With a form that takes \<open>a\<close> polls to decode,
  a good one whose answer takes \<open>b\<close> more, and a timer that fires at poll \<open>limit\<close>: the handler is
  done at poll \<open>min (a + b) limit\<close>, with the answer when it came in time and with "elapsed"
  otherwise; a form that is not a packet ends it with its own error after \<open>a\<close> polls, without
  waiting for the timer.
\<close>

theorem answered_or_elapsed:
  assumes "handler_parts decode form_alive form_delay form_result
      try_recv answer_alive answer_delay answer_result"
    and "timeout_contract timeout fresh limit"
    and "form_alive d" and "answer_alive (snd chan)" and "fresh t"
    and "req = request_of parse_uuid m (form_result d) (fst chan)"
    and "n = form_delay d + (if isl req then 0 else answer_delay (snd chan))"
  shows "drive (rocks_handler_impl timeout (handler_poll decode try_recv parse_uuid m chan)) k
      ((Decoding d, q), t) =
    (if min n (limit t) < k
     then Some (if n \<le> limit t
       then (case req of Inl e \<Rightarrow> Inl e | Inr _ \<Rightarrow> Inr (answer_result (snd chan)))
       else Inl (PacketMessage ''elapsed''))
     else None)"
proof -
  note handler = handler_parts.handler_future [OF assms(1), of parse_uuid m chan]
  note timed = impl_future [of timeout, OF timeout_contract.timed [OF assms(2) handler]]
  note f = future.drive_result [OF timed, of "((Decoding d, q), t)" k]
  from f show ?thesis
    using assms(3-5) unfolding assms(6,7)
    by (cases "request_of parse_uuid m (form_result d) (fst chan)") (simp_all add: handler_error_def)
qed

theorem answered_or_elapsed_witness:
  "drive (rocks_handler_impl count_timeout
      (handler_poll script_poll script_channel (\<lambda>s. Inr (length s)) GET ((), Some (2, True)))) 9
      ((Decoding (Some (1, Inr [bytes_of ''conn'' \<mapsto> [1]])), []), 5) = Some (Inr True) \<and>
   drive (rocks_handler_impl count_timeout
      (handler_poll script_poll script_channel (\<lambda>s. Inr (length s)) GET ((), Some (2, True)))) 9
      ((Decoding (Some (1, Inr [bytes_of ''conn'' \<mapsto> [1]])), []), 2) =
     Some (Inl (PacketMessage ''elapsed''))"
proof -
  let ?d = "Some (1 :: nat, Inr [bytes_of ''conn'' \<mapsto> [1]] :: string + (rstring \<rightharpoonup> rstring))"
  have "request_of (\<lambda>s. Inr (length s)) GET (script_result ?d) () = Inr (PktGet 1 ())"
    using form_keys by (simp add: request_of_def packet_new_def script_result_def)
  with answered_or_elapsed [OF script_parts.handler_parts_axioms counting.timeout_contract_axioms,
      where d = ?d and chan = "((), Some (2, True))" and parse_uuid = "\<lambda>s. Inr (length s)" and m = GET
        and k = 9 and q = "[]" and req = "Inr (PktGet 1 ())" and n = 3]
  show ?thesis by (auto simp: script_delay_def script_result_def)
qed

end
