(* ===== verification/Connection_Manager.thy ===== *)
theory Connection_Manager
  imports Prelude "HOL-Library.Multiset"
begin

text \<open>
  \<open>src/rocks/connection_manager.rs\<close>: the table of connections that wait for a peer. The mutex
  serialises the operations, so its guarded map is the state; \<open>poisoned\<close> says that a thread
  panicked while it held the lock. Errors are their messages.
\<close>

record ('k, 'c) connection_manager =
  conns :: "'k \<rightharpoonup> 'c"
  poisoned :: bool

definition cm_new :: "('k, 'c) connection_manager" where
  "cm_new = \<lparr>conns = Map.empty, poisoned = False\<rparr>"

definition get_connection :: "'k \<Rightarrow> (('k, 'c) connection_manager, string, 'c) io" where
  "get_connection conn_id m =
     (if poisoned m then (Inl (Raise ''Mutex poisoned''), m)
      else if conn_id \<in> dom (conns m) then
        (case conns m conn_id of
           Some c \<Rightarrow> (Inr c, m\<lparr>conns := (conns m)(conn_id := None)\<rparr>)
         | None \<Rightarrow> (Inl (Raise ''No connections found''), m))
      else (Inl (Raise ''Not implemented''), m))"

definition add_connection :: "'k \<Rightarrow> 'c \<Rightarrow> (('k, 'c) connection_manager, string, unit) io" where
  "add_connection conn_id c m =
     (if poisoned m then (Inl (Raise ''Mutex poisoned''), m)
      else if conn_id \<in> dom (conns m) then (Inl (Raise ''Connection exists''), m)
      else (Inr (), m\<lparr>conns := (conns m)(conn_id \<mapsto> c)\<rparr>))"

section \<open>Histories\<close>

text \<open>
  The operations in the order in which the lock let them through, and what happened: the
  connections that were really stored and the ones that were handed out, with their keys.
\<close>

datatype ('k, 'c) cm_call = Add 'k 'c | Get 'k

record ('k, 'c) cm_history =
  stored :: "('k \<times> 'c) list"
  handed :: "('k \<times> 'c) list"

definition cm_step ::
  "('k, 'c) cm_call \<Rightarrow> ('k, 'c) connection_manager \<times> ('k, 'c) cm_history \<Rightarrow>
   ('k, 'c) connection_manager \<times> ('k, 'c) cm_history" where
  "cm_step call mh =
     (case mh of (m, h) \<Rightarrow>
      (case call of
         Add k c \<Rightarrow>
           (case add_connection k c m of
              (Inr _, m') \<Rightarrow> (m', h\<lparr>stored := stored h @ [(k, c)]\<rparr>)
            | (Inl _, m') \<Rightarrow> (m', h))
       | Get k \<Rightarrow>
           (case get_connection k m of
              (Inr c, m') \<Rightarrow> (m', h\<lparr>handed := handed h @ [(k, c)]\<rparr>)
            | (Inl _, m') \<Rightarrow> (m', h))))"

definition cm_run ::
  "('k, 'c) cm_call list \<Rightarrow> ('k, 'c) connection_manager \<times> ('k, 'c) cm_history" where
  "cm_run calls = fold cm_step calls (cm_new, \<lparr>stored = [], handed = []\<rparr>)"

text \<open>What is in the table is what was stored and has not been handed out.\<close>

definition balanced ::
  "('k, 'c) connection_manager \<times> ('k, 'c) cm_history \<Rightarrow> bool" where
  "balanced mh \<longleftrightarrow> \<not> poisoned (fst mh) \<and> finite (dom (conns (fst mh))) \<and>
     mset (stored (snd mh)) = mset (handed (snd mh)) + mset_set (Map.graph (conns (fst mh)))"

lemma finite_graph: "finite (dom f) \<Longrightarrow> finite (Map.graph f)"
  by (simp add: graph_eq_to_snd_dom)

lemma mset_graph_remove:
  assumes "finite (dom f)" and "f k = Some c"
  shows "mset_set (Map.graph f) = add_mset (k, c) (mset_set (Map.graph (f(k := None))))"
proof -
  have "Map.graph f = insert (k, c) (Map.graph (f(k := None)))"
    and "(k, c) \<notin> Map.graph (f(k := None))"
    using assms(2) by (auto simp: Map.graph_def split: if_splits)
  moreover have "finite (Map.graph (f(k := None)))"
    using assms(1) by (intro finite_graph) simp
  ultimately show ?thesis by simp
qed

lemma mset_graph_add:
  assumes "finite (dom f)" and "f k = None"
  shows "mset_set (Map.graph (f(k \<mapsto> c))) = add_mset (k, c) (mset_set (Map.graph f))"
  using mset_graph_remove [of "f(k \<mapsto> c)" k c] assms by (simp add: fun_upd_idem)

lemma cm_step_balanced: "balanced mh \<Longrightarrow> balanced (cm_step call mh)"
  by (auto simp: balanced_def cm_step_def add_connection_def get_connection_def mset_graph_add
      mset_graph_remove domIff simp del: graph_map_upd split: cm_call.split option.split prod.split)

lemma cm_run_balanced: "balanced (cm_run calls)"
proof -
  have "balanced mh \<Longrightarrow> balanced (fold cm_step calls mh)" for mh
    by (induction calls arbitrary: mh) (simp_all add: cm_step_balanced)
  then show ?thesis by (simp add: cm_run_def balanced_def cm_new_def)
qed

section \<open>Properties\<close>

text \<open>
  Every connection is handed out at most once, to a caller that named its key: after any
  sequence of calls, the connections stored are exactly those handed out and those still in
  the table, each as often as it was stored. No connection is lost or duplicated.
\<close>

lemma connections_conserved:
  "mset (stored (snd (cm_run calls))) =
     mset (handed (snd (cm_run calls))) + mset_set (Map.graph (conns (fst (cm_run calls))))"
  using cm_run_balanced [of calls] by (simp add: balanced_def)

text \<open>A connection that has been stored is what the next \<open>get\<close> of its key returns, once.\<close>

lemma add_then_get:
  assumes "add_connection k c m = (Inr (), m')"
  shows "get_connection k m' = (Inr c, m)"
    and "get_connection k m = (Inl (Raise ''Not implemented''), m)"
  using assms
  by (cases m; force simp: add_connection_def get_connection_def fun_upd_idem split: if_splits)+

end
