(* ===== verification/Hyper_Service.thy ===== *)
theory Hyper_Service
  imports Future_Ext
begin

text \<open>
  \<open>src/rocks/hyper_service_helper.rs\<close>: closures as hyper services. A closure is its code and
  what it has captured: code that may change the captured state (\<open>FnMut\<close>), or that uses it up
  and is therefore called on a clone (\<open>Clone + FnOnce\<close>). \<open>into_future\<close> is the conversion of the
  type the closure returns.
\<close>

record ('f, 'q, 'r) fn_mut =
  mut_code :: "'f \<Rightarrow> 'q \<Rightarrow> 'r \<times> 'f"
  mut_captured :: 'f

record ('f, 'q, 'r) fn_once =
  once_code :: "'f \<Rightarrow> 'q \<Rightarrow> 'r"
  once_captured :: 'f

datatype ('f, 'q, 'r) service_fn_once_clone = ServiceFnOnceClone "('f, 'q, 'r) fn_once"

datatype ('f, 'q, 'r) service_fn_mut = ServiceFnMut "('f, 'q, 'r) fn_mut"

definition once_clone_service :: "('f, 'q, 'r) fn_once \<Rightarrow> ('f, 'q, 'r) service_fn_once_clone" where
  "once_clone_service f = ServiceFnOnceClone f"

text \<open>\<open>(self.0.clone())(req).into_future()\<close>: the clone is used up, the original stays.\<close>

fun once_clone_call ::
  "('r \<Rightarrow> 'u) \<Rightarrow> 'q \<Rightarrow> ('f, 'q, 'r) service_fn_once_clone \<Rightarrow>
   'u \<times> ('f, 'q, 'r) service_fn_once_clone" where
  "once_clone_call into_future rq (ServiceFnOnceClone f) =
     (into_future (once_code f (once_captured f) rq), ServiceFnOnceClone f)"

definition mut_service :: "('f, 'q, 'r) fn_mut \<Rightarrow> ('f, 'q, 'r) service_fn_mut" where
  "mut_service f = ServiceFnMut f"

fun mut_call ::
  "('r \<Rightarrow> 'u) \<Rightarrow> 'q \<Rightarrow> ('f, 'q, 'r) service_fn_mut \<Rightarrow> 'u \<times> ('f, 'q, 'r) service_fn_mut" where
  "mut_call into_future rq (ServiceFnMut f) =
     (case mut_code f (mut_captured f) rq of
        (r, c) \<Rightarrow> (into_future r, ServiceFnMut (f\<lparr>mut_captured := c\<rparr>)))"

text \<open>
  \<open>impl IntoFuture for ServiceFnMut\<close>: hyper takes the service for a connection from a future; it
  is ready with the service itself, and, its error type being \<open>!\<close>, cannot fail.
\<close>

definition mut_into_future :: "('f, 'q, 'r) service_fn_mut \<Rightarrow> (nat \<times> ('f, 'q, 'r) service_fn_mut) option" where
  "mut_into_future s = Some (0, s)"

section \<open>A connection and its requests\<close>

text \<open>The requests of one connection, served one after the other.\<close>

fun serve_all :: "('q \<Rightarrow> 's \<Rightarrow> 'u \<times> 's) \<Rightarrow> 'q list \<Rightarrow> 's \<Rightarrow> 'u list \<times> 's" where
  "serve_all call [] s = ([], s)"
| "serve_all call (q # qs) s =
     (case call q s of (u, s) \<Rightarrow> (case serve_all call qs s of (us, s) \<Rightarrow> (u # us, s)))"

text \<open>A cloned closure forgets: every request is served as if it were the only one.\<close>

lemma once_clone_forgets:
  "serve_all (once_clone_call fut) qs (once_clone_service f) =
     (map (\<lambda>q. fut (once_code f (once_captured f) q)) qs, once_clone_service f)"
  by (induction qs) (simp_all add: once_clone_service_def)

text \<open>
  A mutable closure remembers: each request is served in the state its predecessors left, and
  the two adapters serve alike exactly when the code leaves its captured state alone.
\<close>

fun states :: "('f \<Rightarrow> 'q \<Rightarrow> 'r \<times> 'f) \<Rightarrow> 'f \<Rightarrow> 'q list \<Rightarrow> 'f list" where
  "states f c [] = []"
| "states f c (q # qs) = c # states f (snd (f c q)) qs"

lemma mut_remembers:
  "fst (serve_all (mut_call fut) qs (mut_service f)) =
     map2 (\<lambda>c q. fut (fst (mut_code f c q))) (states (mut_code f) (mut_captured f) qs) qs"
proof (induction qs arbitrary: f)
  case (Cons q qs)
  obtain r c where "mut_code f (mut_captured f) q = (r, c)" by fastforce
  with Cons.IH [of "f\<lparr>mut_captured := c\<rparr>"] show ?case
    by (simp add: mut_service_def case_prod_unfold)
qed (simp add: mut_service_def)

lemma mut_map:
  "(\<And>c q. mut_code g c q = (h c q, c)) \<Longrightarrow>
   serve_all (mut_call fut) qs (mut_service g) = (map (\<lambda>q. fut (h (mut_captured g) q)) qs, mut_service g)"
proof (induction qs)
  case (Cons q qs)
  have [simp]: "g\<lparr>mut_captured := mut_captured g\<rparr> = g" by simp
  from Cons show ?case by (simp add: mut_service_def)
qed simp

lemma adapters_agree:
  assumes "\<And>c q. mut_code g c q = (once_code f (once_captured f) q, c)"
  shows "serve_all (mut_call fut) qs (mut_service g) =
    (fst (serve_all (once_clone_call fut) qs (once_clone_service f)), mut_service g)"
  using assms by (simp add: once_clone_forgets mut_map [where h = "\<lambda>_. once_code f (once_captured f)"])

end
