(* ===== verification/Hyper_Svr.thy ===== *)
theory Hyper_Svr
  imports Std_Num Std_Net Hyper_Service
begin

text \<open>
  \<open>src/rocks/hyper_svr.rs\<close>: the HTTP side of the tunnel. The two pages it serves, the future
  that takes one chunk from a request body, and the wrapper that polls a future on the thread
  that owns it only. A body is hyper's \<open>Payload\<close>, a poll function on its state.
\<close>

record http_request =
  rq_uri :: rstring
  rq_headers :: "rstring \<rightharpoonup> u8 list"
  rq_content_length :: "nat option"

record http_response =
  rs_status :: nat
  rs_headers :: "(string \<times> string) list"
  rs_body :: string

datatype page_error = ToStrError string | ParseLength | PageMessage string

text \<open>
  What \<open>handle_rocks\<close> decides from the headers: an error, or whether the body is read to its end.
  \<open>to_str\<close> is the header value's conversion to text; \<open>rq_content_length\<close> is what the body reports.
\<close>

definition rocks_check :: "(u8 list \<Rightarrow> string + rstring) \<Rightarrow> http_request \<Rightarrow> page_error + bool" where
  "rocks_check to_str rq =
     (let hdrs = rq_headers rq in
      if hdrs (bytes_of ''content-type'') = Some (bytes_of ''application/x-www-form-urlencoded'') then
        (case hdrs (bytes_of ''content-length'') of
           None \<Rightarrow> Inr False
         | Some v \<Rightarrow>
             (case to_str v of
                Inl e \<Rightarrow> Inl (ToStrError e)
              | Inr s \<Rightarrow>
                  (case parse_unsigned (2 ^ 64) s of
                     None \<Rightarrow> Inl ParseLength
                   | Some len \<Rightarrow>
                       (case rq_content_length rq of
                          None \<Rightarrow> Inr False
                        | Some l \<Rightarrow> if len \<noteq> l then Inl (PageMessage ''length not match'') else Inr True))))
      else Inr False)"

definition not_found :: http_response where
  "not_found = \<lparr>rs_status = 404, rs_headers = [(''Connection'', ''close'')], rs_body = ''''\<rparr>"

text \<open>
  \<open>while let Some(chunk) = body.next()\<close> in one poll: the chunks that are there are dropped, read
  errors among them. A body that always has another chunk keeps the poll from returning (\<open>None\<close>).
\<close>

type_synonym 'b body = "'b \<Rightarrow> (string + u8 list) option poll \<times> 'b"

partial_function (option) drain :: "'b body \<Rightarrow> 'b \<Rightarrow> (unit poll \<times> 'b) option" where
  "drain nxt b =
     (case nxt b of
        (Pending, b) \<Rightarrow> Some (Pending, b)
      | (Ready None, b) \<Rightarrow> Some (Ready (), b)
      | (Ready (Some _), b) \<Rightarrow> drain nxt b)"

datatype ('o, 'b) page_phase = PageStart 'o http_request 'b | ReadingBody 'b | PageDone

fun handle_rocks ::
  "'b body \<Rightarrow> (u8 list \<Rightarrow> string + rstring) \<Rightarrow> (('o, 'b) page_phase, page_error + http_response) poller" where
  "handle_rocks nxt to_str (ReadingBody b) =
     (case drain nxt b of
        None \<Rightarrow> None
      | Some (Pending, b) \<Rightarrow> Some (Pending, ReadingBody b)
      | Some (Ready _, _) \<Rightarrow> Some (Ready (Inr not_found), PageDone))"
| "handle_rocks nxt to_str (PageStart outgoing rq b) =
     (case rocks_check to_str rq of
        Inl e \<Rightarrow> Some (Ready (Inl e), PageDone)
      | Inr False \<Rightarrow> Some (Ready (Inr not_found), PageDone)
      | Inr True \<Rightarrow>
          (case drain nxt b of
             None \<Rightarrow> None
           | Some (Pending, b) \<Rightarrow> Some (Pending, ReadingBody b)
           | Some (Ready _, _) \<Rightarrow> Some (Ready (Inr not_found), PageDone)))"
| "handle_rocks nxt to_str PageDone = None"

definition handle_static_files :: "http_request \<Rightarrow> page_error + http_response" where
  "handle_static_files rq =
     Inr \<lparr>rs_status = 200, rs_headers = [(''Context-Type'', ''text/html'')], rs_body = ''Hello''\<rparr>"

fun serve_rocks_async ::
  "'b body \<Rightarrow> (u8 list \<Rightarrow> string + rstring) \<Rightarrow> (('o, 'b) page_phase, page_error + http_response) poller" where
  "serve_rocks_async nxt to_str (PageStart outgoing rq b) =
     (if rq_uri rq = bytes_of ''/rocks'' then handle_rocks nxt to_str (PageStart outgoing rq b)
      else Some (Ready (handle_static_files rq), PageDone))"
| "serve_rocks_async nxt to_str st = handle_rocks nxt to_str st"

text \<open>
  \<open>Foo\<close> and the unused \<open>bad\<close>, whose success type \<open>!\<close> has no values: the empty block it awaits is
  ready at its first poll. A second poll behind its end panics.
\<close>

datatype foo = Foo

definition foo_foo :: "foo \<Rightarrow> unit option" where
  "foo_foo f = Some ()"

datatype bad_phase = BadStart | BadDone

fun bad :: "(bad_phase, page_error + 'never) poller" where
  "bad BadStart =
     (case foo_foo Foo of
        Some v \<Rightarrow> Some (Ready (Inl (PageMessage ''!!'')), BadDone)
      | None \<Rightarrow> Some (Ready (Inl (PageMessage ''!!'')), BadDone))"
| "bad BadDone = None"

text \<open>
  \<open>PayloadFuture(Option<P>)\<close>: \<open>unwrap\<close> of a payload that has been taken panics (\<open>None\<close>). A
  chunk is returned together with the payload.
\<close>

type_synonym ('p, 'e, 't) poll_data = "'p \<Rightarrow> ('e + 't option) poll \<times> 'p"

definition payload_poll :: "('p, 'e, 't) poll_data \<Rightarrow> ('p option, 'e + ('p \<times> 't) option) poller" where
  "payload_poll pd st =
     (case st of
        None \<Rightarrow> None
      | Some p \<Rightarrow>
          Some (case pd p of
              (Ready (Inr (Some t)), p') \<Rightarrow> (Ready (Inr (Some (p', t))), None)
            | (Ready (Inr None), p') \<Rightarrow> (Ready (Inr None), Some p')
            | (Pending, p') \<Rightarrow> (Pending, Some p')
            | (Ready (Inl e), p') \<Rightarrow> (Ready (Inl e), Some p')))"

text \<open>
  \<open>WrapFuture\<close>: the future, the waker and the thread it was made with, and the wakers it has woken.
  On another thread than its own it wakes its waker and does not touch the future.
\<close>

record ('f, 'w, 'k) wrapped =
  wf_future :: 'f
  wf_waker :: 'w
  wf_tid :: 'k
  wf_woken :: "'w list"

definition wrap_future :: "'f \<Rightarrow> 'w \<Rightarrow> 'k \<Rightarrow> ('f, 'w, 'k) wrapped" where
  "wrap_future f waker tid = \<lparr>wf_future = f, wf_waker = waker, wf_tid = tid, wf_woken = []\<rparr>"

definition wrap_poll :: "'k \<Rightarrow> ('f, 'e + 'a) poller \<Rightarrow> (('f, 'w, 'k) wrapped, 'e + 'a) poller" where
  "wrap_poll now p st =
     (if now = wf_tid st then
        (case p (wf_future st) of
           None \<Rightarrow> None
         | Some (Ready r, f) \<Rightarrow> Some (Ready r, st\<lparr>wf_future := f\<rparr>)
         | Some (Pending, f) \<Rightarrow> Some (Pending, st\<lparr>wf_future := f\<rparr>))
      else Some (Pending, st\<lparr>wf_woken := wf_woken st @ [wf_waker st]\<rparr>))"

text \<open>
  A request with its body is given to \<open>serve_rocks_async\<close> inside the wrapper, which is tied to the
  waker and the thread it is given (and polled by \<open>wrap_poll now (serve_rocks_async nxt to_str)\<close>).
\<close>

definition serve_rocks ::
  "'o \<Rightarrow> http_request \<times> 'b \<Rightarrow> 'w \<Rightarrow> 'k \<Rightarrow> (('o, 'b) page_phase, 'w, 'k) wrapped" where
  "serve_rocks outgoing req waker tid =
     (case req of (rq, b) \<Rightarrow> wrap_future (PageStart outgoing rq b) waker tid)"

text \<open>
  The service of a connection is a closure that has captured a clone of the outgoing side, the
  waker and the thread, and gives clones of them to \<open>serve_rocks\<close>.
\<close>

definition rocks_service ::
  "'o \<Rightarrow> 'w \<Rightarrow> 'k \<Rightarrow>
   ('o \<times> 'w \<times> 'k, http_request \<times> 'b, (('o, 'b) page_phase, 'w, 'k) wrapped) service_fn_mut" where
  "rocks_service outgoing waker tid =
     mut_service
       \<lparr>mut_code = (\<lambda>c req. (case c of (outgoing, waker, tid) \<Rightarrow> serve_rocks outgoing req waker tid, c)),
        mut_captured = (outgoing, waker, tid)\<rparr>"

text \<open>
  \<open>start_server\<close>, running on the thread \<open>current\<close> in a task with the waker \<open>task_waker\<close>. hyper, the
  parameter \<open>run\<close>, is given a closure that makes the service of a connection; it calls it on a
  thread of its choice, which is the argument of the closure. An error of hyper is logged.
\<close>

definition rocks_make_service ::
  "'o \<Rightarrow> 'w \<Rightarrow> 'k \<Rightarrow> 'k \<Rightarrow>
   ('o \<times> 'w \<times> 'k, http_request \<times> 'b, (('o, 'b) page_phase, 'w, 'k) wrapped) service_fn_mut" where
  "rocks_make_service outgoing waker tid called_on = rocks_service outgoing waker tid"

definition start_server ::
  "(sock_addr \<Rightarrow>
     ('k \<Rightarrow> ('o \<times> 'w \<times> 'k, http_request \<times> 'b, (('o, 'b) page_phase, 'w, 'k) wrapped) service_fn_mut) \<Rightarrow>
     string + unit) \<Rightarrow> 'w \<Rightarrow> 'k \<Rightarrow> sock_addr \<Rightarrow> 'o \<Rightarrow> string list" where
  "start_server run task_waker current addr outgoing =
     (let waker = task_waker; tid = current in
      case run addr (rocks_make_service outgoing waker tid) of
        Inl e \<Rightarrow> [e]
      | Inr _ \<Rightarrow> [])"

section \<open>The wrapper and its thread\<close>

text \<open>On its own thread the wrapper is the future it wraps; on any other it is never ready.\<close>

lemma wrap_own_thread:
  fixes p :: "('f, 'e + 'a) poller" and k :: 'k
  assumes "future p alive delay result"
  shows "future (wrap_poll k p) (\<lambda>st. wf_tid st = k \<and> alive (wf_future st))
    (\<lambda>st. delay (wf_future st)) (\<lambda>st. result (wf_future st))"
proof
  fix st :: "('f, 'w, 'k) wrapped" and n
  assume "wf_tid st = k \<and> alive (wf_future st)" "delay (wf_future st) = Suc n"
  then show "\<exists>st'. wrap_poll k p st = Some (Pending, st') \<and> (wf_tid st' = k \<and> alive (wf_future st')) \<and>
      delay (wf_future st') = n \<and> result (wf_future st') = result (wf_future st)"
    using future.polled [OF assms, of "wf_future st"] by (auto simp: wrap_poll_def)
next
  fix st :: "('f, 'w, 'k) wrapped"
  assume "wf_tid st = k \<and> alive (wf_future st)" "delay (wf_future st) = 0"
  then show "\<exists>st'. wrap_poll k p st = Some (Ready (result (wf_future st)), st')"
    using future.ready [OF assms, of "wf_future st"] by (auto simp: wrap_poll_def)
qed

lemma wrap_other_thread: "now \<noteq> wf_tid st \<Longrightarrow> drive (wrap_poll now p) n st = None"
  by (induction n arbitrary: st) (simp_all add: wrap_poll_def)

section \<open>The pages\<close>

text \<open>The page of a request, and whether its body is read first.\<close>

definition page_of :: "(u8 list \<Rightarrow> string + rstring) \<Rightarrow> http_request \<Rightarrow> page_error + http_response" where
  "page_of to_str rq =
     (if rq_uri rq = bytes_of ''/rocks'' then map_sum id (\<lambda>_. not_found) (rocks_check to_str rq)
      else handle_static_files rq)"

definition reads_body :: "(u8 list \<Rightarrow> string + rstring) \<Rightarrow> http_request \<Rightarrow> bool" where
  "reads_body to_str rq \<longleftrightarrow> rq_uri rq = bytes_of ''/rocks'' \<and> rocks_check to_str rq = Inr True"

fun page_alive :: "('b \<Rightarrow> bool) \<Rightarrow> ('o, 'b) page_phase \<Rightarrow> bool" where
  "page_alive alive (PageStart outgoing rq b) = alive b"
| "page_alive alive (ReadingBody b) = alive b"
| "page_alive alive PageDone = False"

fun page_delay :: "(u8 list \<Rightarrow> string + rstring) \<Rightarrow> ('b \<Rightarrow> nat) \<Rightarrow> ('o, 'b) page_phase \<Rightarrow> nat" where
  "page_delay to_str delay (PageStart outgoing rq b) = (if reads_body to_str rq then delay b else 0)"
| "page_delay to_str delay (ReadingBody b) = delay b"
| "page_delay to_str delay PageDone = 0"

fun page_result :: "(u8 list \<Rightarrow> string + rstring) \<Rightarrow> ('o, 'b) page_phase \<Rightarrow> page_error + http_response" where
  "page_result to_str (PageStart outgoing rq b) = page_of to_str rq"
| "page_result to_str _ = Inr not_found"

text \<open>When the body ends, after some polls, the page is a future that takes as many.\<close>

lemma page_future:
  assumes body: "future (drain nxt) alive delay (\<lambda>_. ())"
  shows "future (serve_rocks_async nxt to_str) (page_alive alive) (page_delay to_str delay) (page_result to_str)"
proof
  fix st n
  assume a: "page_alive alive st" "page_delay to_str delay st = Suc n"
  show "\<exists>st'. serve_rocks_async nxt to_str st = Some (Pending, st') \<and> page_alive alive st' \<and>
      page_delay to_str delay st' = n \<and> page_result to_str st' = page_result to_str st"
  proof (cases st)
    case (PageStart outgoing rq b)
    with a future.waits [OF body, of b n] show ?thesis
      by (auto simp: reads_body_def page_of_def split: if_splits)
  next
    case (ReadingBody b)
    with a future.waits [OF body, of b n] show ?thesis by auto
  qed (use a in simp)
next
  fix st
  assume a: "page_alive alive st" "page_delay to_str delay st = 0"
  show "\<exists>st'. serve_rocks_async nxt to_str st = Some (Ready (page_result to_str st), st')"
  proof (cases st)
    case (PageStart outgoing rq b)
    with a future.ready [OF body, of b] show ?thesis
      by (auto simp: reads_body_def page_of_def split: sum.split bool.split if_splits)
  next
    case (ReadingBody b)
    with a future.ready [OF body, of b] show ?thesis by auto
  qed (use a in simp)
qed

text \<open>Every request for \<open>/rocks\<close> ends with status 404 or an error: no tunnel is served.\<close>

lemma rocks_not_served:
  assumes "rq_uri rq = bytes_of ''/rocks''" and "page_of to_str rq = Inr rs"
  shows "rs_status rs = 404"
  using assms by (cases "rocks_check to_str rq") (auto simp: page_of_def not_found_def)

lemma bad_fails_at_once: "drive bad (Suc n) BadStart = Some (Inl (PageMessage ''!!''))"
  by (simp add: foo_foo_def)

text \<open>A body that is a list of polls: \<open>None\<close> is a pending one.\<close>

definition list_body :: "(string + u8 list) option list body" where
  "list_body b =
     (case b of
        [] \<Rightarrow> (Ready None, [])
      | None # b' \<Rightarrow> (Pending, b')
      | Some c # b' \<Rightarrow> (Ready (Some c), b'))"

lemma drain_list:
  "drain list_body [] = Some (Ready (), [])" "drain list_body (None # b) = Some (Pending, b)"
  "drain list_body (Some c # b) = drain list_body b"
  by (subst drain.simps, simp add: list_body_def)+

lemma list_body_future: "future (drain list_body) (\<lambda>_. True) (\<lambda>b. length (filter ((=) None) b)) (\<lambda>_. ())"
proof
  fix b :: "(string + u8 list) option list" and n
  assume "length (filter ((=) None) b) = Suc n"
  then show "\<exists>b'. drain list_body b = Some (Pending, b') \<and> True \<and>
      length (filter ((=) None) b') = n \<and> () = ()"
  proof (induction b)
    case (Cons c b)
    then show ?case by (cases c) (simp_all add: drain_list)
  qed simp
next
  fix b :: "(string + u8 list) option list"
  assume "length (filter ((=) None) b) = 0"
  then show "\<exists>b'. drain list_body b = Some (Ready (), b')"
  proof (induction b)
    case (Cons c b)
    then show ?case by (cases c) (simp_all add: drain_list)
  qed (simp add: drain_list)
qed

section \<open>Properties\<close>

lemma payload_waiting: "waiting (payload_poll pd) (Some p0) st \<Longrightarrow> st \<noteq> None"
  by (induction rule: waiting.induct)
    (auto simp: payload_poll_def split: option.splits prod.splits poll.splits sum.splits)

text \<open>
  The payload future never unwraps a payload that is gone while it is waiting: after any
  number of pending polls it still holds the payload, and its next poll is the payload's own.
  A chunk comes back with the payload as the payload's poll left it, so that reading can go on
  from there, and only then is the future used up.
\<close>

lemma payload_future_safe:
  assumes "waiting (payload_poll pd) (Some p0) st"
  shows "\<exists>p. st = Some p \<and>
    (case pd p of
       (Ready (Inr (Some t)), p') \<Rightarrow> payload_poll pd st = Some (Ready (Inr (Some (p', t))), None)
     | (Ready (Inr None), p') \<Rightarrow> payload_poll pd st = Some (Ready (Inr None), Some p')
     | (Ready (Inl e), p') \<Rightarrow> payload_poll pd st = Some (Ready (Inl e), Some p')
     | (Pending, p') \<Rightarrow> payload_poll pd st = Some (Pending, Some p'))"
proof -
  obtain p where "st = Some p" using payload_waiting [OF assms] by blast
  then show ?thesis
    by (intro exI [of _ p]) (auto simp: payload_poll_def split: option.split prod.split poll.split sum.split)
qed

lemma rocks_connection:
  "fst (serve_all (mut_call id) rqs (rocks_service outgoing waker tid)) =
     map (\<lambda>rq. serve_rocks outgoing rq waker tid) rqs"
  by (simp add: rocks_service_def mut_map [where h = "\<lambda>(outgoing, waker, tid) rq. serve_rocks outgoing rq waker tid"]
      split: prod.split)

lemma serve_rocks_simps [simp]:
  "wf_tid (serve_rocks outgoing req waker tid) = tid" "wf_waker (serve_rocks outgoing req waker tid) = waker"
  "wf_woken (serve_rocks outgoing req waker tid) = []"
  "wf_future (serve_rocks outgoing (rq, b) waker tid) = PageStart outgoing rq b"
  by (simp_all add: serve_rocks_def wrap_future_def split: prod.split)

lemma serve_rocks_driven:
  assumes "future (drain nxt) alive delay (\<lambda>_. ())" and "alive b"
  shows "drive (wrap_poll now (serve_rocks_async nxt to_str)) n (serve_rocks outgoing (rq, b) waker tid) =
    (if now = tid \<and> (if reads_body to_str rq then delay b else 0) < n then Some (page_of to_str rq) else None)"
proof (cases "now = tid")
  case True
  from future.drive_result [OF wrap_own_thread [OF page_future [OF assms(1)]],
      where s = "serve_rocks outgoing (rq, b) waker tid"] True assms(2)
  show ?thesis by simp
next
  case False
  then show ?thesis by (simp add: wrap_other_thread)
qed

text \<open>
  C39. The pages are served on the thread that started the server and on no other. Whatever hyper
  is, \<open>start_server\<close> runs it with a closure that makes the service of a connection, and on
  whatever thread this closure is called: of the requests of the connection, each polled at most
  \<open>n\<close> times on the thread \<open>now\<close>, those whose body has ended by then, if it is read at all, get
  exactly their page when \<open>now\<close> is the thread \<open>start_server\<close> ran on; on any other thread none
  gets anything, however often it is polled, and its first poll there wakes the task of the
  starter and does nothing else.
\<close>

theorem pages_need_their_thread:
  assumes "future (drain nxt) alive delay (\<lambda>_. ())" and "list_all (\<lambda>rq. alive (snd rq)) rqs"
  shows "\<exists>mk. (\<forall>run. start_server run waker tid addr outgoing =
        (case run addr mk of Inl e \<Rightarrow> [e] | Inr _ \<Rightarrow> [])) \<and>
    (\<forall>k. map (drive (wrap_poll now (serve_rocks_async nxt to_str)) n)
        (fst (serve_all (mut_call id) rqs (mk k))) =
      map (\<lambda>(rq, b). if now = tid \<and> (if reads_body to_str rq then delay b else 0) < n
        then Some (page_of to_str rq) else None) rqs \<and>
      (now \<noteq> tid \<longrightarrow> list_all (\<lambda>st. wrap_poll now (serve_rocks_async nxt to_str) st =
        Some (Pending, st\<lparr>wf_woken := [waker]\<rparr>)) (fst (serve_all (mut_call id) rqs (mk k)))))"
proof (intro exI [of _ "rocks_make_service outgoing waker tid"] conjI allI impI)
  fix k
  show "map (drive (wrap_poll now (serve_rocks_async nxt to_str)) n)
      (fst (serve_all (mut_call id) rqs (rocks_make_service outgoing waker tid k))) =
    map (\<lambda>(rq, b). if now = tid \<and> (if reads_body to_str rq then delay b else 0) < n
      then Some (page_of to_str rq) else None) rqs"
    using assms(2)
    by (auto simp: rocks_make_service_def rocks_connection list_all_iff serve_rocks_driven [OF assms(1)])
  show "list_all (\<lambda>st. wrap_poll now (serve_rocks_async nxt to_str) st = Some (Pending, st\<lparr>wf_woken := [waker]\<rparr>))
      (fst (serve_all (mut_call id) rqs (rocks_make_service outgoing waker tid k)))" if "now \<noteq> tid"
    using that by (auto simp: rocks_make_service_def rocks_connection list_all_iff wrap_poll_def)
qed (simp add: start_server_def)

theorem pages_need_their_thread_witness:
  "\<exists>mk :: bool \<Rightarrow> (unit \<times> unit \<times> bool, http_request \<times> (string + u8 list) option list,
      ((unit, (string + u8 list) option list) page_phase, unit, bool) wrapped) service_fn_mut.
    map (drive (wrap_poll True (serve_rocks_async list_body Inr)) 2)
      (fst (serve_all (mut_call id)
        [(\<lparr>rq_uri = bytes_of ''/'', rq_headers = Map.empty, rq_content_length = None\<rparr>, [None, Some (Inr [1])])]
        (mk False))) =
    [Some (Inr \<lparr>rs_status = 200, rs_headers = [(''Context-Type'', ''text/html'')], rs_body = ''Hello''\<rparr>)]"
proof -
  let ?rqs = "[(\<lparr>rq_uri = bytes_of ''/'', rq_headers = Map.empty, rq_content_length = None\<rparr>, [None, Some (Inr [1])])]"
  have "list_all (\<lambda>rq. True) ?rqs" by simp
  from pages_need_their_thread [OF list_body_future this, where waker = "()" and tid = True and now = True
      and addr = "socket_addr (V4 (Ipv4 127 0 0 1)) 8888" and outgoing = "()" and n = 2 and to_str = Inr]
  show ?thesis
    by (rule ex_forward) (simp add: reads_body_def page_of_def handle_static_files_def bytes_of_def)
qed

end
