(* ===== verification/Rocks_Listener.thy ===== *)
theory Rocks_Listener
  imports Tls_Stream Connection_Manager Hyper_Svr
begin

text \<open>
  \<open>src/rocks/mod.rs\<close>: the listener of the tunnel. It starts the page server on a local address
  and then spawns one task per incoming connection, which puts TLS around the connection and
  relays it to that local address. The listener, rustls, \<open>TcpStream::connect\<close> and the relay
  (\<open>copy\<close>, no longer in the source) are parameters.
\<close>

record ('cfg, 'k, 'c) rocks_incoming =
  ssl_conf :: 'cfg
  conn_manager :: "('k, 'c) connection_manager"
  rk_listen_addr :: sock_addr
  rk_fallback_addr :: sock_addr

datatype rocks_error = RkConfig string | RkIo io_error | RkCopy string

text \<open>The two addresses are literals, which parse.\<close>

definition rocks_test ::
  "(string \<Rightarrow> string \<Rightarrow> string + 'cfg) \<Rightarrow> (rocks_error, ('cfg, 'k, 'c) rocks_incoming) res" where
  "rocks_test config_rustls_server =
     (case config_rustls_server ''key.pem'' ''cert.pem'' of
        Inl e \<Rightarrow> Inl (Raise (RkConfig e))
      | Inr ssl \<Rightarrow>
          Inr \<lparr>ssl_conf = ssl, conn_manager = cm_new,
            rk_listen_addr = socket_addr (V4 (Ipv4 127 0 0 1)) 8443,
            rk_fallback_addr = socket_addr (V4 (Ipv4 127 0 0 1)) 8888\<rparr>)"

record ('l, 's, 'n, 'd, 'cfg, 'ss) rocks_net =
  rk_bind :: "sock_addr \<Rightarrow> io_error + 'l"
  rk_next :: "'l \<Rightarrow> (io_error + 's) option \<times> 'l"
  rk_session :: "'cfg \<Rightarrow> 'ss"
  rk_connect :: "sock_addr \<Rightarrow> 'n \<Rightarrow> (io_error + 'd) \<times> 'n"
  rk_copy :: "('s, 'ss) tls_stream \<Rightarrow> 'd \<Rightarrow> 'n \<Rightarrow> (string + unit) \<times> 'n"

definition rocks_handle_client ::
  "('l, 's, 'n, 'd, 'cfg, 'ss) rocks_net \<Rightarrow> ('cfg, 'k, 'c) rocks_incoming \<Rightarrow> io_error + 's \<Rightarrow>
   ('n, rocks_error, unit) io" where
  "rocks_handle_client N self accepted =
     (let ss = rk_session N (ssl_conf self) in
      case accepted of
        Inl e \<Rightarrow> raise (RkIo e)
      | Inr stream \<Rightarrow>
          let s = tls_new stream ss in
          (\<lambda>n. case rk_connect N (rk_fallback_addr self) n of
             (Inl e, n) \<Rightarrow> (Inl (Raise (RkIo e)), n)
           | (Inr conn, n) \<Rightarrow>
               (case rk_copy N s conn n of
                  (Inl e, n) \<Rightarrow> (Inl (Raise (RkCopy e)), n)
                | (Inr _, n) \<Rightarrow> (Inr (), n))))"

text \<open>What is spawned: the page server with the outgoing side, and a task per connection, which logs its error.\<close>

datatype ('s, 'o, 'self) rocks_spawn = StartServer sock_addr 'o | Client 'self "io_error + 's"

definition rocks_client_task ::
  "('l, 's, 'n, 'd, 'cfg, 'ss) rocks_net \<Rightarrow> ('cfg, 'k, 'c) rocks_incoming \<Rightarrow> io_error + 's \<Rightarrow> 'n \<Rightarrow>
   rocks_error stop list \<times> 'n" where
  "rocks_client_task N self accepted n =
     (case rocks_handle_client N self accepted n of (Inl e, n) \<Rightarrow> ([e], n) | (Inr _, n) \<Rightarrow> ([], n))"

text \<open>The loop over the incoming connections: a failed accept is spawned like any other.\<close>

partial_function (option) rocks_loop ::
  "('l, 's, 'n, 'd, 'cfg, 'ss) rocks_net \<Rightarrow> ('cfg, 'k, 'c) rocks_incoming \<Rightarrow> 'l \<Rightarrow>
   ('s, 'o, ('cfg, 'k, 'c) rocks_incoming) rocks_spawn list \<Rightarrow>
   ('s, 'o, ('cfg, 'k, 'c) rocks_incoming) rocks_spawn list option" where
  "rocks_loop N self inc spawned =
     (case rk_next N inc of
        (None, _) \<Rightarrow> Some spawned
      | (Some stream, inc) \<Rightarrow> rocks_loop N self inc (spawned @ [Client self stream]))"

definition rocks_start ::
  "('l, 's, 'n, 'd, 'cfg, 'ss) rocks_net \<Rightarrow> ('cfg, 'k, 'c) rocks_incoming \<Rightarrow> 'o \<Rightarrow>
   ((rocks_error, unit) res \<times> ('s, 'o, ('cfg, 'k, 'c) rocks_incoming) rocks_spawn list) option" where
  "rocks_start N self outgoing =
     (case rk_bind N (rk_listen_addr self) of
        Inl e \<Rightarrow> Some (Inl (Raise (RkIo e)), [])
      | Inr incoming \<Rightarrow>
          Option.bind (rocks_loop N self incoming [StartServer (rk_fallback_addr self) outgoing]) (\<lambda>spawned.
          Some (Inr (), spawned)))"

text \<open>The method of the trait; the spawner it is given is not used.\<close>

definition rocks_trait_start ::
  "('l, 's, 'n, 'd, 'cfg, 'ss) rocks_net \<Rightarrow> ('cfg, 'k, 'c) rocks_incoming \<Rightarrow> 'o \<Rightarrow> 'sp \<Rightarrow>
   ((rocks_error, unit) res \<times> ('s, 'o, ('cfg, 'k, 'c) rocks_incoming) rocks_spawn list) option" where
  "rocks_trait_start N self outgoing spawner = rocks_start N self outgoing"

section \<open>The loop\<close>

text \<open>What the listener delivers, failed accepts included.\<close>

inductive delivered :: "('l, 's, 'n, 'd, 'cfg, 'ss) rocks_net \<Rightarrow> 'l \<Rightarrow> (io_error + 's) list \<Rightarrow> 'l \<Rightarrow> bool"
  for N where
  none: "delivered N l [] l"
| one: "rk_next N l = (Some c, l') \<Longrightarrow> delivered N l' cs l'' \<Longrightarrow> delivered N l (c # cs) l''"

lemma rocks_loop_run:
  "delivered N l cs l' \<Longrightarrow> fst (rk_next N l') = None \<Longrightarrow>
   rocks_loop N self l spawned = Some (spawned @ map (Client self) cs)"
proof (induction arbitrary: spawned rule: delivered.induct)
  case (none l)
  then show ?case by (subst rocks_loop.simps) (cases "rk_next N l", simp)
next
  case (one l c l' cs l'')
  then show ?case by (subst rocks_loop.simps) simp
qed

lemma rocks_loop_returns:
  assumes "rocks_loop N self l spawned = Some out"
  shows "\<exists>cs l'. out = spawned @ map (Client self) cs \<and> delivered N l cs l' \<and> fst (rk_next N l') = None"
proof -
  let ?P = "\<lambda>N' self' l spawned out. N' = N \<longrightarrow> self' = self \<longrightarrow>
    (\<exists>cs l'. out = spawned @ map (Client self) cs \<and> delivered N l cs l' \<and> fst (rk_next N l') = None)"
  have "?P N self l spawned out"
  proof (rule rocks_loop.raw_induct [where P = ?P, OF _ assms], intro impI)
    fix f N' self' l spawned out
    assume IH: "\<And>N self l spawned out. f N self l spawned = Some out \<Longrightarrow> ?P N self l spawned out"
      and eq: "(case rk_next N' l of
          (None, _) \<Rightarrow> Some spawned
        | (Some stream, inc) \<Rightarrow> f N' self' inc (spawned @ [Client self' stream])) = Some out"
      and fixed: "N' = N" "self' = self"
    show "\<exists>cs l'. out = spawned @ map (Client self) cs \<and> delivered N l cs l' \<and> fst (rk_next N l') = None"
    proof (cases "rk_next N l")
      case (Pair c l1)
      show ?thesis
      proof (cases c)
        case None
        with eq fixed Pair show ?thesis
          by (auto intro!: exI [of _ "[]"] exI [of _ l] delivered.none)
      next
        case (Some st)
        with eq fixed Pair have "f N self l1 (spawned @ [Client self st]) = Some out" by simp
        from IH [OF this] obtain cs l' where rest: "out = spawned @ map (Client self) (st # cs)"
          "delivered N l1 cs l'" "fst (rk_next N l') = None" by auto
        from delivered.one [OF Pair [unfolded Some] rest(2)] rest(1,3) show ?thesis by blast
      qed
    qed
  qed
  then show ?thesis by simp
qed

text \<open>A task whose accept has failed logs the error and touches nothing.\<close>

lemma failed_accept_is_logged:
  "rocks_client_task N self (Inl e) n = ([Raise (RkIo e)], n)"
  by (simp add: rocks_client_task_def rocks_handle_client_def)

text \<open>
  Whatever a client sends, its connection goes to the local page server: no other address is
  ever connected to.
\<close>

lemma only_fallback_contacted:
  assumes "\<And>n. c (rk_fallback_addr self) n = rk_connect N (rk_fallback_addr self) n"
  shows "rocks_client_task (N\<lparr>rk_connect := c\<rparr>) self accepted n = rocks_client_task N self accepted n"
  using assms by (simp add: rocks_client_task_def rocks_handle_client_def Let_def cong: sum.case_cong)

section \<open>Properties\<close>

text \<open>
  C37. The tunnel's listener survives failed accepts: it returns with an error exactly when it
  cannot bind, and otherwise exactly when the stream of connections ends; by then it has
  started the page server with the outgoing side once, before everything else, and spawned one task for each
  connection the listener delivered, in order, those whose accept had failed included.
\<close>

theorem rocks_listener_exact:
  "rocks_trait_start N self outgoing spawner = Some (r, spawned) \<longleftrightarrow>
     (\<exists>e. rk_bind N (rk_listen_addr self) = Inl e \<and> r = Inl (Raise (RkIo e)) \<and> spawned = []) \<or>
     (\<exists>l cs l'. rk_bind N (rk_listen_addr self) = Inr l \<and> delivered N l cs l' \<and>
        fst (rk_next N l') = None \<and> r = Inr () \<and>
        spawned = StartServer (rk_fallback_addr self) outgoing # map (Client self) cs)"
proof (cases "rk_bind N (rk_listen_addr self)")
  case (Inl e)
  then show ?thesis by (auto simp: rocks_trait_start_def rocks_start_def)
next
  case (Inr l)
  let ?first = "[StartServer (rk_fallback_addr self) outgoing]"
  from Inr have start: "rocks_trait_start N self outgoing spawner = Some (r, spawned) \<longleftrightarrow>
      r = Inr () \<and> rocks_loop N self l ?first = Some spawned"
    by (auto simp: rocks_trait_start_def rocks_start_def bind_eq_Some_conv)
  have "rocks_loop N self l ?first = Some spawned \<longleftrightarrow>
      (\<exists>cs l'. spawned = ?first @ map (Client self) cs \<and> delivered N l cs l' \<and> fst (rk_next N l') = None)"
    using rocks_loop_returns rocks_loop_run by metis
  with start Inr show ?thesis by auto
qed

end
