(* ===== verification/Https_Server.thy ===== *)
theory Https_Server
  imports Http_Parse Stream_Wrap Req_Addr
begin

text \<open>
  \<open>src/hyper_tls_server.rs\<close>: the HTTPS test server. \<open>temp\<close> serves one connection after the
  other by hand: it reads a request head in chunks, parses and rebuilds it, and answers;
  \<open>serving\<close> leaves that to hyper. The line parser comes from a module that is no longer in the
  source (\<open>cycbuffer\<close>), so it is a parameter with the contract \<open>line_source\<close>, which the line
  parser of \<open>src/http_parse\<close> satisfies. native-tls, tokio, httparse and hyper are parameters.
  The read loops may run forever: they are partial functions.
\<close>

datatype https_error =
    HttpsIo io_error
  | HttpsTls string
  | HttpsParse string
  | HttpsMessage string
  | HttpsHyper string

section \<open>Reading a head\<close>

text \<open>\<open>LineParser::parse_line\<close>: the next line and how many bytes of the piece it took.\<close>

type_synonym ('p, 'x) line_reader = "u8 list \<Rightarrow> ('p, 'x, u8 list \<times> nat) io"

text \<open>
  The inner loop, on \<open>buf\<close> of which \<open>c\<close> bytes are filled, from \<open>s\<close> on. It ends with the end of
  the head in \<open>buf\<close>, or with \<open>None\<close> when the parser has no further line.
\<close>

partial_function (option) take_lines ::
  "('p, 'x) line_reader \<Rightarrow> u8 list \<Rightarrow> nat \<Rightarrow> nat \<Rightarrow> 'p \<Rightarrow> nat \<Rightarrow>
   ((https_error, nat option) res \<times> 'p \<times> nat) option" where
  "take_lines pl buf c s lp line_cnt =
     (case subslice s c buf of
        Inl e \<Rightarrow> Some (Inl e, lp, line_cnt)
      | Inr piece \<Rightarrow>
          (case pl piece lp of
             (Inl Panic, lp) \<Rightarrow> Some (Inl Panic, lp, line_cnt)
           | (Inl (Raise _), lp) \<Rightarrow> Some (Inr None, lp, line_cnt)
           | (Inr (line, n), lp) \<Rightarrow>
               if line = [] then Some (Inr (Some (s + n)), lp, line_cnt + 1)
               else take_lines pl buf c (s + n) lp (line_cnt + 1)))"

text \<open>The loop \<open>'a\<close>: \<open>data\<close> is what has been read, up to the end of the head.\<close>

partial_function (option) read_head ::
  "'s reading \<Rightarrow> ('p, 'x) line_reader \<Rightarrow> u8 list \<Rightarrow> 'p \<Rightarrow> u8 list \<Rightarrow> nat \<Rightarrow> 's \<Rightarrow>
   ((https_error, u8 list \<times> nat) res \<times> 's) option" where
  "read_head rd pl buf lp data line_cnt st =
     (case rd (length buf) st of
        (Inl e, st) \<Rightarrow> Some (Inl (Raise (HttpsIo e)), st)
      | (Inr bs, st) \<Rightarrow>
          let buf = overwrite 0 bs buf; c = length bs in
          Option.bind (take_lines pl buf c 0 lp line_cnt) (\<lambda>(r, lp, line_cnt).
          case r of
            Inl e \<Rightarrow> Some (Inl e, st)
          | Inr (Some s) \<Rightarrow>
              Some (bindR (subslice 0 s buf) (\<lambda>h. Inr (data @ h, line_cnt)), st)
          | Inr None \<Rightarrow> read_head rd pl buf lp (data @ take c buf) line_cnt st))"

section \<open>The request\<close>

text \<open>What the request builder is given. It is dropped; only its calls could fail, and do not.\<close>

record rebuilt =
  rb_version :: http_version
  rb_method :: rstring
  rb_path :: rstring
  rb_headers :: "(rstring \<times> u8 list) list"

definition request_version :: "parsed_request \<Rightarrow> http_version" where
  "request_version req =
     (case pr_version req of
        None \<Rightarrow> HTTP_09
      | Some v \<Rightarrow>
          if v = 0 then HTTP_10
          else if v = 1 then
            (if filter (\<lambda>h. fst h = bytes_of ''Upgrade'' \<and> snd h = bytes_of ''h2c'') (pr_headers req) \<noteq> []
             then HTTP_2 else HTTP_11)
          else HTTP_09)"

definition rebuild :: "parsed_request \<Rightarrow> (https_error, rebuilt) res" where
  "rebuild req =
     (case (pr_method req, pr_path req) of
        (Some m, Some p) \<Rightarrow>
          Inr \<lparr>rb_version = request_version req, rb_method = m, rb_path = p,
            rb_headers = filter (\<lambda>h. h \<noteq> ([], [])) (pr_headers req)\<rparr>
      | _ \<Rightarrow> Inl (Raise (HttpsMessage ''Incomplete request'')))"

section \<open>The connections\<close>

record ('l, 'k, 's) https_ops =
  next_stream :: "'l \<Rightarrow> (io_error + 'k) option \<times> 'l"
  tls_accept :: "'k \<Rightarrow> string + 's"
  read_async :: "'s reading"
  write_all_async :: "u8 list \<Rightarrow> 's \<Rightarrow> (io_error + unit) \<times> 's"

definition CRLF :: "u8 list" where
  "CRLF = [CR, LF]"

definition https_answer :: "u8 list" where
  "https_answer = bytes_of ''HTTP/1.1 200 OK'' @ CRLF @ CRLF @ bytes_of ''Hello''"

text \<open>One connection: the body of the outer loop behind the TLS handshake.\<close>

definition serve_stream ::
  "('l, 'k, 's) https_ops \<Rightarrow> ('p, 'x) line_reader \<Rightarrow> 'p \<Rightarrow> httparse \<Rightarrow> 's \<Rightarrow>
   ((https_error, unit) res \<times> 's) option" where
  "serve_stream H pl lp0 parse st =
     Option.bind (read_head (read_async H) pl (replicate 4096 0) lp0 [] 0 st) (\<lambda>(r, st).
     Some (case r of
         Inl e \<Rightarrow> (Inl e, st)
       | Inr (data, line_cnt) \<Rightarrow>
           (case parse line_cnt data of
              Inl e \<Rightarrow> (Inl (Raise (HttpsParse e)), st)
            | Inr (_, req) \<Rightarrow>
                (case rebuild req of
                   Inl e \<Rightarrow> (Inl e, st)
                 | Inr _ \<Rightarrow>
                     (case write_all_async H https_answer st of
                        (Inl e, st) \<Rightarrow> (Inl (Raise (HttpsIo e)), st)
                      | (Inr _, st) \<Rightarrow> (Inr (), st))))))"

text \<open>
  The outer loop. Every \<open>?\<close> leaves it, whichever connection it concerns; \<open>past\<close> collects the
  connections that are done with, as they were dropped.
\<close>

partial_function (option) temp ::
  "('l, 'k, 's) https_ops \<Rightarrow> ('p, 'x) line_reader \<Rightarrow> 'p \<Rightarrow> httparse \<Rightarrow> 'l \<Rightarrow> 's list \<Rightarrow>
   ((https_error, unit) res \<times> 's list) option" where
  "temp H pl lp0 parse inc past =
     (case next_stream H inc of
        (None, _) \<Rightarrow> Some (Inr (), past)
      | (Some (Inl e), _) \<Rightarrow> Some (Inl (Raise (HttpsIo e)), past)
      | (Some (Inr k), inc) \<Rightarrow>
          (case tls_accept H k of
             Inl e \<Rightarrow> Some (Inl (Raise (HttpsTls e)), past)
           | Inr st \<Rightarrow>
               Option.bind (serve_stream H pl lp0 parse st) (\<lambda>(r, st).
               case r of
                 Inl e \<Rightarrow> Some (Inl e, past @ [st])
               | Inr _ \<Rightarrow> temp H pl lp0 parse inc (past @ [st]))))"

section \<open>The server on hyper\<close>

text \<open>
  \<open>incoming.map_err(..).and_then(..)\<close>: a TLS handshake that fails is an error of the stream of
  connections, like a failed accept. \<open>serve\<close> is hyper's server on that stream and a service.
\<close>

definition tls_incoming ::
  "('l, 'k, 's) https_ops \<Rightarrow> 'l \<Rightarrow> (https_error + 's) option \<times> 'l" where
  "tls_incoming H inc =
     (case next_stream H inc of
        (None, inc) \<Rightarrow> (None, inc)
      | (Some (Inl e), inc) \<Rightarrow> (Some (Inl (HttpsIo e)), inc)
      | (Some (Inr k), inc) \<Rightarrow>
          (Some (case tls_accept H k of Inl e \<Rightarrow> Inl (HttpsTls e) | Inr st \<Rightarrow> Inr st), inc))"

definition hello_service :: "http_version \<Rightarrow> string + string" where
  "hello_service v =
     (if v = HTTP_11 then Inr ''Hello World'' else Inl ''not HTTP/1.1, abort connection'')"

type_synonym ('l, 's) hyper_server =
  "('l \<Rightarrow> (https_error + 's) option \<times> 'l) \<Rightarrow> (http_version \<Rightarrow> string + string) \<Rightarrow> 'l \<Rightarrow> string + unit"

definition hyper_serving ::
  "('l, 's) hyper_server \<Rightarrow> ('l, 'k, 's) https_ops \<Rightarrow> 'l \<Rightarrow> (https_error, unit) res" where
  "hyper_serving serve H inc =
     (case serve (tls_incoming H) hello_service inc of
        Inl e \<Rightarrow> Inl (Raise (HttpsHyper e))
      | Inr _ \<Rightarrow> Inr ())"

section \<open>Start-up\<close>

text \<open>
  \<open>try_from_cfg\<close> and \<open>resolve_addr\<close> are no longer in the source. An acceptor \<open>'t\<close> turns the
  bound listener into the connections to be served.
\<close>

record 'a server_config =
  sc_listen_addr :: 'a
  sc_keyfile :: rstring
  sc_pass :: rstring

record ('a, 'i, 't, 'l) setup_ops =
  try_from_cfg :: "'a \<Rightarrow> string + req_addr"
  resolve_addr :: "req_addr \<Rightarrow> string + sock_addr option"
  read_file :: "rstring \<Rightarrow> io_error + u8 list"
  from_pkcs12 :: "u8 list \<Rightarrow> rstring \<Rightarrow> string + 'i"
  new_acceptor :: "'i \<Rightarrow> string + 't"
  bind_listener :: "sock_addr \<Rightarrow> io_error + 'l"

text \<open>\<open>r?\<close> with the conversion of its error.\<close>

definition q_res :: "('f \<Rightarrow> https_error) \<Rightarrow> 'f + 'a \<Rightarrow> (https_error, 'a) res" where
  "q_res f r = (case r of Inl e \<Rightarrow> Inl (Raise (f e)) | Inr x \<Rightarrow> Inr x)"

definition tls_acceptor ::
  "('a, 'i, 't, 'l) setup_ops \<Rightarrow> rstring \<Rightarrow> rstring \<Rightarrow> (https_error, 't) res" where
  "tls_acceptor B priv_key pwd =
     bindR (q_res HttpsIo (read_file B priv_key)) (\<lambda>identity.
     bindR (q_res HttpsTls (from_pkcs12 B identity pwd)) (\<lambda>identity.
     q_res HttpsTls (new_acceptor B identity)))"

definition serving ::
  "('a, 'i, 't, 'l) setup_ops \<Rightarrow> ('t \<Rightarrow> 'l \<Rightarrow> (https_error, unit) res) \<Rightarrow> 'a server_config \<Rightarrow>
   (https_error, unit) res" where
  "serving B serve conf =
     bindR (q_res HttpsMessage (try_from_cfg B (sc_listen_addr conf))) (\<lambda>listen_addr.
     bindR (q_res HttpsMessage (resolve_addr B listen_addr)) (\<lambda>addr.
     bindR (case addr of
         None \<Rightarrow> Inl (Raise (HttpsMessage ''domain unresolvable'')) | Some a \<Rightarrow> Inr a) (\<lambda>addr.
     bindR (tls_acceptor B (sc_keyfile conf) (sc_pass conf)) (\<lambda>acceptor.
     bindR (q_res HttpsIo (bind_listener B addr)) (\<lambda>incoming.
     serve acceptor incoming)))))"

end
