(* ===== verification/Https_Correct.thy ===== *)
theory Https_Correct
  imports Https_Server Transport
begin

text \<open>
  What the HTTPS test server of \<open>src/hyper_tls_server.rs\<close> does: what its read loop collects,
  when it never returns, and when the server stops. The contracts of the line parser
  (\<open>line_source\<close>) and of the stream (\<open>chunk_reader\<close>) are interpreted by the line parser of
  \<open>src/http_parse\<close> and by the stream in memory.
\<close>

section \<open>The line parser and the stream\<close>

lemma crlf_lines_snoc: "crlf_lines (ls @ [l]) = crlf_lines ls @ l @ [CR, LF]"
  by (simp add: crlf_lines_def)

text \<open>
  What the loop needs of the line parser: it takes a part of the piece, ending in the CRLF of
  the line, or keeps all of it. \<open>held\<close> is what it keeps of an unfinished line.
\<close>

locale line_source =
  fixes pl :: "('p, 'x) line_reader" and ok :: "'p \<Rightarrow> bool" and held :: "'p \<Rightarrow> u8 list"
  assumes took: "ok lp \<Longrightarrow> pl bs lp = (Inr (line, n), lp') \<Longrightarrow>
      ok lp' \<and> held lp' = [] \<and> 0 < n \<and> n \<le> length bs \<and> held lp @ take n bs = line @ [CR, LF]"
    and kept: "ok lp \<Longrightarrow> pl bs lp = (Inl (Raise x), lp') \<Longrightarrow> ok lp' \<and> held lp' = held lp @ bs"

text \<open>A stream that is read in chunks: \<open>got\<close> is what has been read from it so far.\<close>

locale chunk_reader =
  fixes rd :: "'s reading" and got :: "'s \<Rightarrow> u8 list"
  assumes chunk: "rd n st = (Inr bs, st') \<Longrightarrow> length bs \<le> n \<and> got st' = got st @ bs"
    and chunk_err: "rd n st = (Inl e, st') \<Longrightarrow> got st' = got st"

context line_source
begin

lemma subslice_piece: "subslice s c buf = Inr piece \<longleftrightarrow> s \<le> c \<and> c \<le> length buf \<and> piece = take (c - s) (drop s buf)"
  by (auto simp: subslice_def)

lemma piece_taken:
  assumes "s \<le> c" "c \<le> length buf" "n \<le> length (take (c - s) (drop s buf))"
  shows "take (s + n) buf = take s buf @ take n (take (c - s) (drop s buf))"
  using assms by (simp add: take_add min_absorb1)

text \<open>The inner loop returns, since every line takes at least one byte.\<close>

lemma take_lines_returns:
  "ok lp \<Longrightarrow> s \<le> c \<Longrightarrow> c \<le> length buf \<Longrightarrow> \<exists>res. take_lines pl buf c s lp cnt = Some res"
proof (induction "c - s" arbitrary: s lp cnt rule: less_induct)
  case less
  obtain r lp' where p: "pl (take (c - s) (drop s buf)) lp = (r, lp')" by fastforce
  show ?case
  proof (cases r)
    case (Inl x)
    with p less.prems show ?thesis
      by (subst take_lines.simps) (simp add: subslice_def split: stop.split)
  next
    case (Inr ln)
    then obtain line n where r: "r = Inr (line, n)" by (cases ln) auto
    from took [OF less.prems(1) p [unfolded r]] less.prems
    have n: "0 < n" "n \<le> c - s" "ok lp'" by auto
    with less.hyps [of "s + n" lp' "cnt + 1"] less.prems p r show ?thesis
      by (subst take_lines.simps) (simp add: subslice_def)
  qed
qed

text \<open>
  The invariant of both loops: what has been read up to \<open>s\<close> is the lines taken so far, none of
  them empty, and what the parser holds.
\<close>

lemma take_lines_ends:
  assumes "take_lines pl buf c s lp (length ls) = Some (r, lp', cnt')"
    and "ok lp" and "s \<le> c" and "c \<le> length buf"
    and "data @ take s buf = crlf_lines ls @ held lp" and "[] \<notin> set ls"
  shows "case r of
      Inl e \<Rightarrow> e = Panic
    | Inr None \<Rightarrow> (\<exists>ls'. ok lp' \<and> cnt' = length ls' \<and> [] \<notin> set ls' \<and>
        data @ take c buf = crlf_lines ls' @ held lp')
    | Inr (Some e) \<Rightarrow> (\<exists>ls'. 0 < e \<and> e \<le> c \<and> cnt' = length ls' + 1 \<and> [] \<notin> set ls' \<and>
        data @ take e buf = crlf_lines (ls' @ [[]]))"
  using assms
proof (induction "c - s" arbitrary: s lp ls rule: less_induct)
  case less
  let ?piece = "take (c - s) (drop s buf)"
  obtain q lp1 where p: "pl ?piece lp = (q, lp1)" by fastforce
  have c: "data @ take c buf = crlf_lines ls @ held lp @ ?piece"
  proof -
    have "take c buf = take s buf @ ?piece"
      using take_add [of s "c - s" buf] less.prems(3) by simp
    with less.prems(5) show ?thesis by (metis append.assoc)
  qed
  show ?case
  proof (cases q)
    case (Inl x)
    with p less.prems(1-4) c less.prems(6) kept [OF less.prems(2), of ?piece _ lp1] show ?thesis
      by (subst (asm) take_lines.simps) (auto simp: subslice_def split: stop.splits)
  next
    case (Inr ln)
    then obtain line n where q: "q = Inr (line, n)" by (cases ln) auto
    note t = took [OF less.prems(2) p [unfolded q]]
    have upto: "data @ take (s + n) buf = crlf_lines (ls @ [line]) @ held lp1"
    proof -
      have "take (s + n) buf = take s buf @ take n ?piece"
        using t less.prems(3,4) by (intro piece_taken) auto
      with less.prems(5) t show ?thesis
        by (metis append.assoc append_Nil2 crlf_lines_snoc)
    qed
    show ?thesis
    proof (cases "line = []")
      case True
      with less.prems(1) p q less.prems(3,4)
      have "r = Inr (Some (s + n))" "cnt' = length ls + 1"
        by (subst (asm) take_lines.simps, simp add: subslice_def)+
      with True upto t less.prems show ?thesis by (auto intro!: exI [of _ ls])
    next
      case False
      with less.prems(1) p q less.prems(3,4)
      have "take_lines pl buf c (s + n) lp1 (length (ls @ [line])) = Some (r, lp', cnt')"
        by (subst (asm) take_lines.simps) (simp add: subslice_def)
      from less.hyps [OF _ this] t False upto less.prems show ?thesis by auto
    qed
  qed
qed

end

context line_source
begin

lemma take_lines_cases:
  assumes "take_lines pl buf c s lp cnt = Some (r, lp', cnt')"
    and "ok lp" and "s \<le> c" and "c \<le> length buf"
  shows "case r of
      Inl e \<Rightarrow> \<exists>lp bs. ok lp \<and> fst (pl bs lp) = Inl Panic
    | Inr None \<Rightarrow> ok lp'
    | Inr (Some e) \<Rightarrow> ok lp' \<and> e \<le> c"
  using assms
proof (induction "c - s" arbitrary: s lp cnt rule: less_induct)
  case less
  let ?piece = "take (c - s) (drop s buf)"
  obtain q lp1 where p: "pl ?piece lp = (q, lp1)" by fastforce
  show ?case
  proof (cases q)
    case (Inl x)
    show ?thesis
    proof (cases x)
      case Panic
      with Inl p less.prems have "r = Inl Panic"
        by (subst (asm) take_lines.simps) (simp add: subslice_def)
      with Inl Panic p less.prems(2) show ?thesis
        by (auto intro!: exI [of _ lp] exI [of _ ?piece])
    next
      case (Raise y)
      with Inl p less.prems kept [OF less.prems(2), of ?piece y lp1] show ?thesis
        by (subst (asm) take_lines.simps) (auto simp: subslice_def)
    qed
  next
    case (Inr ln)
    then obtain line n where q: "q = Inr (line, n)" by (cases ln) auto
    note t = took [OF less.prems(2) p [unfolded q]]
    show ?thesis
    proof (cases "line = []")
      case True
      with less.prems p q t show ?thesis
        by (subst (asm) take_lines.simps) (auto simp: subslice_def)
    next
      case False
      with less.prems p q
      have "take_lines pl buf c (s + n) lp1 (cnt + 1) = Some (r, lp', cnt')"
        by (subst (asm) take_lines.simps) (simp add: subslice_def)
      from less.hyps [OF _ this] t less.prems show ?thesis by auto
    qed
  qed
qed

end

text \<open>A request head of \<open>cnt\<close> lines, the last of them the only empty one.\<close>

definition is_head :: "u8 list \<Rightarrow> nat \<Rightarrow> bool" where
  "is_head d cnt \<longleftrightarrow> (\<exists>ls. d = crlf_lines (ls @ [[]]) \<and> cnt = length ls + 1 \<and> [] \<notin> set ls)"

locale head_reader = line_source pl ok held + chunk_reader rd got
  for pl :: "('p, 'x) line_reader" and ok held and rd :: "'s reading" and got
begin

lemma overwrite_front: "length bs \<le> length buf \<Longrightarrow> take (length bs) (overwrite 0 bs buf) = bs"
  by (simp add: overwrite_def)

lemma read_head_ends:
  assumes "read_head rd pl buf lp data cnt st = Some (Inr (head, cnt'), st')"
    and "ok lp" and "data = crlf_lines ls @ held lp" and "cnt = length ls" and "[] \<notin> set ls"
  shows "\<exists>new rest. data @ new = head \<and> got st' = got st @ new @ rest \<and> is_head head cnt'"
proof -
  let ?P = "\<lambda>rd' pl' (buf :: u8 list) lp data cnt st
      (res :: (https_error, u8 list \<times> nat) res \<times> 's). rd' = rd \<longrightarrow> pl' = pl \<longrightarrow> ok lp \<longrightarrow>
    (\<forall>ls head cnt'. data = crlf_lines ls @ held lp \<longrightarrow> cnt = length ls \<longrightarrow> [] \<notin> set ls \<longrightarrow>
      fst res = Inr (head, cnt') \<longrightarrow>
      (\<exists>new rest. data @ new = head \<and> got (snd res) = got st @ new @ rest \<and> is_head head cnt'))"
  have "?P rd pl buf lp data cnt st (Inr (head, cnt'), st')"
  proof (rule read_head.raw_induct [where P = ?P, OF _ assms(1)], intro impI allI)
    fix f rd' pl' buf lp data cnt st res ls head cnt'
    assume IH: "\<And>rd pl buf lp data cnt st res. f rd pl buf lp data cnt st = Some res \<Longrightarrow>
        ?P rd pl buf lp data cnt st res"
      and eq: "(case rd' (length buf) st of
          (Inl e, st) \<Rightarrow> Some (Inl (Raise (HttpsIo e)), st)
        | (Inr bs, st) \<Rightarrow>
            let buf = overwrite 0 bs buf; c = length bs in
            Option.bind (take_lines pl' buf c 0 lp cnt) (\<lambda>(r, lp, cnt).
            case r of
              Inl e \<Rightarrow> Some (Inl e, st)
            | Inr None \<Rightarrow> f rd' pl' buf lp (data @ take c buf) cnt st
            | Inr (Some s) \<Rightarrow> Some (bindR (subslice 0 s buf) (\<lambda>h. Inr (data @ h, cnt)), st))) = Some res"
      and inv: "rd' = rd" "pl' = pl" "ok lp" "data = crlf_lines ls @ held lp" "cnt = length ls" "[] \<notin> set ls"
        "fst res = Inr (head, cnt')"
    from eq inv obtain bs st1 where r: "rd (length buf) st = (Inr bs, st1)"
      by (cases "rd (length buf) st"; cases "fst (rd (length buf) st)") auto
    note got = chunk [OF r]
    let ?buf = "overwrite 0 bs buf"
    have buf: "length ?buf = length buf" using got by simp
    from eq inv r obtain q lp1 cnt1 where t: "take_lines pl ?buf (length bs) 0 lp (length ls) = Some (q, lp1, cnt1)"
      by (auto simp: Let_def bind_eq_Some_conv)
    have front: "take (length bs) ?buf = bs" using got by (simp add: overwrite_front)
    note ends = take_lines_ends [OF t inv(3) _ _ _ inv(6), of data]
    show "\<exists>new rest. data @ new = head \<and> got (snd res) = got st @ new @ rest \<and> is_head head cnt'"
    proof (cases q)
      case (Inl x)
      with eq inv r t show ?thesis by (auto simp: Let_def)
    next
      case (Inr more)
      show ?thesis
      proof (cases more)
        case None
        with ends Inr buf got inv obtain ls1 where ls1:
          "ok lp1" "data @ take (length bs) ?buf = crlf_lines ls1 @ held lp1" "cnt1 = length ls1" "[] \<notin> set ls1"
          by auto
        from eq inv r t Inr None
        have "f rd pl ?buf lp1 (data @ take (length bs) ?buf) cnt1 st1 = Some res"
          by (simp add: Let_def)
        from IH [OF this] ls1 inv(7)
        have "\<exists>new rest. (data @ take (length bs) ?buf) @ new = head \<and>
            got (snd res) = got st1 @ new @ rest \<and> is_head head cnt'"
          by blast
        then obtain new rest where "data @ bs @ new = head" "got (snd res) = got st1 @ new @ rest"
          "is_head head cnt'"
          using front by auto
        with got show ?thesis by (intro exI [of _ "bs @ new"] exI [of _ rest]) simp
      next
        case (Some e)
        with ends Inr buf got inv obtain ls1 where
          e: "e \<le> length bs" "cnt1 = length ls1 + 1" "[] \<notin> set ls1"
            "data @ take e ?buf = crlf_lines (ls1 @ [[]])"
          by auto
        with eq inv r t Inr Some buf got
        have "head = data @ take e ?buf" "cnt' = cnt1" "snd res = st1"
          by (auto simp: Let_def subslice_def)
        moreover have "bs = take e ?buf @ drop e bs"
          using e(1) front by (metis append_take_drop_id min.absorb1 take_take)
        ultimately show ?thesis
          using e got by (intro exI [of _ "take e ?buf"] exI [of _ "drop e bs"]) (auto simp: is_head_def)
      qed
    qed
  qed
  with assms show ?thesis by simp
qed

text \<open>A reader that never panics, and a stream that never fails.\<close>

lemma read_head_keeps:
  assumes "\<And>lp bs. ok lp \<Longrightarrow> fst (pl bs lp) \<noteq> Inl Panic"
    and open_: "\<And>n st. E st \<Longrightarrow> \<exists>bs st'. rd n st = (Inr bs, st') \<and> E st'"
    and "read_head rd pl buf lp data cnt st = Some (r, st')" and "ok lp" and "E st"
  shows "E st' \<and> \<not> isl r"
proof -
  let ?P = "\<lambda>rd' pl' (buf :: u8 list) lp (data :: u8 list) (cnt :: nat) st
      (res :: (https_error, u8 list \<times> nat) res \<times> 's).
      rd' = rd \<longrightarrow> pl' = pl \<longrightarrow> ok lp \<longrightarrow> E st \<longrightarrow> E (snd res) \<and> \<not> isl (fst res)"
  have "?P rd pl buf lp data cnt st (r, st')"
  proof (rule read_head.raw_induct [where P = ?P, OF _ assms(3)], intro impI)
    fix f rd' pl' buf lp data cnt st res
    assume IH: "\<And>rd pl buf lp data cnt st res. f rd pl buf lp data cnt st = Some res \<Longrightarrow>
        ?P rd pl buf lp data cnt st res"
      and eq: "(case rd' (length buf) st of
          (Inl e, st) \<Rightarrow> Some (Inl (Raise (HttpsIo e)), st)
        | (Inr bs, st) \<Rightarrow>
            let buf = overwrite 0 bs buf; c = length bs in
            Option.bind (take_lines pl' buf c 0 lp cnt) (\<lambda>(r, lp, cnt).
            case r of
              Inl e \<Rightarrow> Some (Inl e, st)
            | Inr None \<Rightarrow> f rd' pl' buf lp (data @ take c buf) cnt st
            | Inr (Some s) \<Rightarrow> Some (bindR (subslice 0 s buf) (\<lambda>h. Inr (data @ h, cnt)), st))) = Some res"
      and inv: "rd' = rd" "pl' = pl" "ok lp" "E st"
    from open_ [OF inv(4)] obtain bs st1 where r: "rd (length buf) st = (Inr bs, st1)" "E st1"
      by blast
    note got = chunk [OF r(1)]
    let ?buf = "overwrite 0 bs buf"
    have buf: "length ?buf = length buf" using got by simp
    from eq inv r obtain q lp1 cnt1 where t: "take_lines pl ?buf (length bs) 0 lp cnt = Some (q, lp1, cnt1)"
      by (auto simp: Let_def bind_eq_Some_conv)
    note ends = take_lines_cases [OF t inv(3)]
    from ends assms(1) got buf obtain more where q: "q = Inr more" by (cases q) auto
    show "E (snd res) \<and> \<not> isl (fst res)"
    proof (cases more)
      case None
      with eq inv r t q have "f rd pl ?buf lp1 (data @ take (length bs) ?buf) cnt1 st1 = Some res"
        by (simp add: Let_def)
      moreover from ends None q got buf have "ok lp1" by simp
      ultimately show ?thesis using IH r(2) by blast
    next
      case (Some e)
      with ends q got buf have "e \<le> length bs" by simp
      with eq inv r t q Some got buf show ?thesis by (auto simp: Let_def subslice_def)
    qed
  qed
  with assms(4,5) show ?thesis by simp
qed

end

section \<open>The parser and the stream of the model\<close>

text \<open>The line parser of \<open>src/http_parse\<close>, and the splitting it is specified by, as line readers.\<close>

definition http_lines :: "(line_parser, unit) line_reader" where
  "http_lines bs lp =
     (case parse_line_http bs lp of
        (Inr (Some (l, n)), lp) \<Rightarrow> (Inr (l, n), lp)
      | (Inr None, lp) \<Rightarrow> (Inl (Raise ()), lp)
      | (Inl _, lp) \<Rightarrow> (Inl Panic, lp))"

definition flag_right :: "line_parser \<Rightarrow> bool" where
  "flag_right lp \<longleftrightarrow> (lp_buf lp \<noteq> [] \<longrightarrow> saw_return lp = (last (lp_buf lp) = CR))"

definition split_lines :: "(u8 list, unit) line_reader" where
  "split_lines bs h =
     (case split_crlf (h @ bs) of
        Some (l, r) \<Rightarrow> (Inr (l, length bs - length r), [])
      | None \<Rightarrow> (Inl (Raise ()), h @ bs))"

lemma http_lines_took:
  assumes "flag_right lp" and "http_lines bs lp = (Inr (line, n), lp')"
  shows "flag_right lp' \<and> lp_buf lp' = [] \<and> 0 < n \<and> n \<le> length bs \<and>
    lp_buf lp @ take n bs = line @ [CR, LF]"
proof -
  from assms(2) have p: "parse_line_http bs lp = (Inr (Some (line, n)), lp')"
    by (auto simp: http_lines_def split: prod.splits sum.splits option.splits)
  note n = consumed [OF p]
  show ?thesis
  proof (cases "saw_return lp \<and> length bs > 1 \<and> bs ! 0 = LF")
    case True
    with p have b: "lp_buf lp \<noteq> []" "line = butlast (lp_buf lp)" "n = 1" "lp_buf lp' = []"
      by (auto simp: parse_line_http_def split: if_splits)
    with True assms(1) have "last (lp_buf lp) = CR" by (simp add: flag_right_def)
    with b have "lp_buf lp = line @ [CR]" by (metis append_butlast_last_id)
    moreover from True have "take n bs = [LF]" using b(3) by (cases bs) auto
    ultimately show ?thesis using b(4) n by (simp add: flag_right_def)
  next
    case False
    obtain a saw where sc: "scan (saw_return lp) 0 bs = (a, saw)" by fastforce
    have "parse_line_http bs lp = (case a of
        Some pos \<Rightarrow> (Inr (Some (lp_buf lp @ take (pos - 2) bs, pos)), \<lparr>lp_buf = [], saw_return = saw\<rparr>)
      | None \<Rightarrow> (Inr None, \<lparr>lp_buf = lp_buf lp @ bs, saw_return = saw\<rparr>))"
      unfolding parse_line_http_def if_not_P [OF False] sc by simp
    with p have a: "a = Some n" and b: "line = lp_buf lp @ take (n - 2) bs" "lp_buf lp' = []"
      by (cases a, auto)+
    from scan_pos [of "saw_return lp" 0 bs] sc a obtain l r where
      sp: "split_crlf bs = Some (l, r)" "n = length l + 2"
      by (cases "split_crlf bs") auto
    from split_crlf_SomeD [OF sp(1)] have "take n bs = take (n - 2) bs @ [CR, LF]"
      by (simp add: sp(2))
    with b n show ?thesis by (simp add: flag_right_def)
  qed
qed

lemma http_lines_kept:
  assumes "flag_right lp" and "http_lines bs lp = (Inl (Raise x), lp')"
  shows "flag_right lp' \<and> lp_buf lp' = lp_buf lp @ bs"
proof -
  from assms(2) have p: "parse_line_http bs lp = (Inr None, lp')"
    by (auto simp: http_lines_def split: prod.splits sum.splits option.splits)
  then obtain saw where sc: "scan (saw_return lp) 0 bs = (None, saw)"
    and b: "lp' = \<lparr>lp_buf = lp_buf lp @ bs, saw_return = saw\<rparr>"
    by (auto simp: parse_line_http_def split: if_splits prod.splits option.splits)
  from sc scan_pos [of "saw_return lp" 0 bs] have "split_crlf bs = None" by simp
  from scan_None [OF this, of "saw_return lp" 0] sc b assms(1) show ?thesis
    by (auto simp: flag_right_def)
qed

interpretation http_lines: line_source http_lines flag_right lp_buf
  by unfold_locales (erule (1) http_lines_took, erule (1) http_lines_kept)

lemma split_lines_took:
  assumes "split_crlf h = None" and "split_lines bs h = (Inr (line, n), h')"
  shows "split_crlf h' = None \<and> h' = [] \<and> 0 < n \<and> n \<le> length bs \<and> h @ take n bs = line @ [CR, LF]"
proof -
  from assms(2) obtain r where sp: "split_crlf (h @ bs) = Some (line, r)"
    and n: "n = length bs - length r" "h' = []"
    by (auto simp: split_lines_def split: option.splits)
  from split_crlf_SomeD [OF sp] have eq: "h @ bs = line @ [CR, LF] @ r" by simp
  have r: "length r < length bs"
  proof (rule ccontr)
    assume "\<not> length r < length bs"
    with eq obtain u where "h = (line @ [CR, LF]) @ u"
      by (auto simp: append_eq_append_conv2 [of h bs "line @ [CR, LF]" r, simplified])
    then have "h = line @ [CR, LF] @ u" by simp
    with assms(1) split_crlf_line [of line u] split_crlf_SomeD [OF sp] show False by simp
  qed
  with eq have "take (length (h @ bs) - length r) (h @ bs) = line @ [CR, LF]"
    by (metis append.assoc append_eq_conv_conj diff_add_inverse2 length_append)
  with r n show ?thesis by simp
qed

interpretation split_lines: line_source split_lines "\<lambda>h. split_crlf h = None" id
  by unfold_locales
    (use split_lines_took in \<open>fastforce\<close>, auto simp: split_lines_def split: option.splits)

text \<open>Reading the stream in memory in chunks.\<close>

definition mem_chunk :: "mem_stream reading" where
  "mem_chunk n m =
     (Inr (take n (ms_in m)),
      m\<lparr>ms_in := drop n (ms_in m), ms_read := ms_read m @ take n (ms_in m)\<rparr>)"

interpretation mem_chunks: chunk_reader mem_chunk ms_read
  by unfold_locales (auto simp: mem_chunk_def)

interpretation mem_heads: head_reader http_lines flag_right lp_buf mem_chunk ms_read
  by unfold_locales

definition mem_https :: "((io_error + mem_stream) list, mem_stream, mem_stream) https_ops" where
  "mem_https =
     \<lparr>next_stream = (\<lambda>l. case l of [] \<Rightarrow> (None, []) | x # l' \<Rightarrow> (Some x, l')),
      tls_accept = Inr, read_async = mem_chunk, write_all_async = mem_write\<rparr>"

section \<open>Properties\<close>

text \<open>
  C33. However a request head is cut into chunks, what the loop collects is the head: complete
  lines of which only the last is empty, counted, and exactly the bytes received before what
  came behind it in the last chunk (which is dropped).
\<close>

theorem collected_is_head:
  assumes "line_source pl ok held" and "chunk_reader rd got" and "ok lp0" and "held lp0 = []"
    and "read_head rd pl buf lp0 [] 0 st = Some (Inr (head, cnt), st')"
  shows "is_head head cnt \<and> (\<exists>rest. got st' = got st @ head @ rest)"
  using head_reader.read_head_ends [OF head_reader.intro, OF assms(1,2,5,3), of "[]"] assms(4)
  by (fastforce simp: crlf_lines_def)

lemma two_chunks:
  "read_head mem_chunk http_lines [0, 0, 0] lp_new [] 0 (mem_of [71, CR, LF, CR, LF]) =
     Some (Inr ([71, CR, LF, CR, LF], 2), \<lparr>ms_in = [], ms_read = [71, CR, LF, CR, LF], ms_out = []\<rparr>)"
  by (subst read_head.simps, subst take_lines.simps, subst take_lines.simps,
      subst read_head.simps, subst take_lines.simps)
    (simp add: mem_chunk_def mem_of_def overwrite_def subslice_def http_lines_def parse_line_http_def
      lp_new_def Let_def)

theorem collected_is_head_witness: "is_head [71, CR, LF, CR, LF] 2"
  using collected_is_head [OF http_lines.line_source_axioms mem_chunks.chunk_reader_axioms _ _ two_chunks]
  by (simp add: flag_right_def lp_new_def)

text \<open>
  C32. A client that closes its connection before its head is complete hangs the server: when
  everything the stream will ever deliver contains no complete head, the read loop goes on for
  ever at the end of the stream, and no later connection is accepted.
\<close>

theorem unfinished_head_hangs_server:
  assumes "line_source pl ok held" and "chunk_reader (read_async H) got"
    and "\<And>lp bs. ok lp \<Longrightarrow> fst (pl bs lp) \<noteq> Inl Panic" and "ok lp0" and "held lp0 = []"
    and "\<And>n st. E st \<Longrightarrow> \<exists>bs st'. read_async H n st = (Inr bs, st') \<and> E st'"
    and "\<And>st. E st \<Longrightarrow> prefix (got st) whole"
    and "\<And>h cnt. prefix h whole \<Longrightarrow> \<not> is_head h cnt"
    and "next_stream H inc = (Some (Inr k), inc')" and "tls_accept H k = Inr st"
    and "E st" and "got st = []"
  shows "temp H pl lp0 parse inc past = None"
proof -
  note hr = head_reader.intro [OF assms(1,2)]
  have "read_head (read_async H) pl (replicate 4096 0) lp0 [] 0 st = None"
  proof (rule ccontr)
    assume "read_head (read_async H) pl (replicate 4096 0) lp0 [] 0 st \<noteq> None"
    then obtain r st' where run: "read_head (read_async H) pl (replicate 4096 0) lp0 [] 0 st = Some (r, st')"
      by auto
    from head_reader.read_head_keeps [OF hr, where E = E, OF assms(3,6) run assms(4,11)]
    obtain head cnt where r: "r = Inr (head, cnt)" and "E st'" by (cases r) auto
    from head_reader.read_head_ends [OF hr run [unfolded r] assms(4), of "[]"] assms(5,12)
    obtain rest where "got st' = head @ rest" "is_head head cnt" by (auto simp: crlf_lines_def)
    with assms(7) [OF \<open>E st'\<close>] assms(8) show False by (metis prefix_order.trans prefixI)
  qed
  with assms(9,10) show ?thesis by (subst temp.simps) (simp add: serve_stream_def)
qed

lemma no_head_in_a_line: "prefix h [71, CR, LF] \<Longrightarrow> \<not> is_head h cnt"
proof
  assume "prefix h [71, CR, LF]" and "is_head h cnt"
  then obtain ls where h: "h = crlf_lines (ls @ [[]])" "[] \<notin> set ls" "prefix h [71, CR, LF]"
    by (auto simp: is_head_def)
  show False
  proof (cases ls)
    case Nil
    with h show False by (simp add: crlf_lines_def)
  next
    case (Cons l ls')
    with h(2) have "length l > 0" by auto
    with Cons h(1) have "length h > 4" by (simp add: crlf_lines_def)
    with prefix_length_le [OF h(3)] show False by simp
  qed
qed

theorem unfinished_head_hangs_server_witness:
  "temp mem_https split_lines [] any_parse [Inr (mem_of [71, CR, LF]), Inr (mem_of [])] [] = None"
  by (rule unfinished_head_hangs_server [OF split_lines.line_source_axioms, where got = ms_read and
        E = "\<lambda>m. ms_read m @ ms_in m = [71, CR, LF]" and whole = "[71, CR, LF]" and
        k = "mem_of [71, CR, LF]" and st = "mem_of [71, CR, LF]" and inc' = "[Inr (mem_of [])]"])
    (use mem_chunks.chunk_reader_axioms no_head_in_a_line in
      \<open>auto simp: mem_https_def mem_chunk_def mem_of_def split_lines_def split: option.split intro: prefixI [OF sym]\<close>)

text \<open>A run of connections that are accepted and answered, and how the server stops behind it.\<close>

inductive answered ::
  "('l, 'k, 's) https_ops \<Rightarrow> ('p, 'x) line_reader \<Rightarrow> 'p \<Rightarrow> httparse \<Rightarrow> 'l \<Rightarrow> 's list \<Rightarrow> 'l \<Rightarrow> bool"
  for H pl lp0 parse where
  none: "answered H pl lp0 parse inc [] inc"
| one: "next_stream H inc = (Some (Inr k), inc') \<Longrightarrow> tls_accept H k = Inr st \<Longrightarrow>
    serve_stream H pl lp0 parse st = Some (Inr (), st') \<Longrightarrow>
    answered H pl lp0 parse inc' sts inc'' \<Longrightarrow> answered H pl lp0 parse inc (st' # sts) inc''"

definition stops_with ::
  "('l, 'k, 's) https_ops \<Rightarrow> ('p, 'x) line_reader \<Rightarrow> 'p \<Rightarrow> httparse \<Rightarrow> 'l \<Rightarrow>
   (https_error, unit) res \<Rightarrow> 's list \<Rightarrow> bool" where
  "stops_with H pl lp0 parse inc r sts \<longleftrightarrow>
     (case next_stream H inc of
        (None, _) \<Rightarrow> r = Inr () \<and> sts = []
      | (Some (Inl e), _) \<Rightarrow> r = Inl (Raise (HttpsIo e)) \<and> sts = []
      | (Some (Inr k), _) \<Rightarrow>
          (case tls_accept H k of
             Inl e \<Rightarrow> r = Inl (Raise (HttpsTls e)) \<and> sts = []
           | Inr st \<Rightarrow> (\<exists>x st'. serve_stream H pl lp0 parse st = Some (Inl x, st') \<and> r = Inl x \<and> sts = [st'])))"

lemma temp_run:
  "answered H pl lp0 parse inc sts inc' \<Longrightarrow> stops_with H pl lp0 parse inc' r left \<Longrightarrow>
   temp H pl lp0 parse inc past = Some (r, past @ sts @ left)"
proof (induction arbitrary: past rule: answered.induct)
  case (none inc)
  then show ?case
    by (subst temp.simps) (auto simp: stops_with_def split: prod.splits option.splits sum.splits)
next
  case (one inc k inc' st st' sts inc'')
  from one.hyps(1-3) one.IH [OF one.prems, of "past @ [st']"] show ?case
    by (subst temp.simps) simp
qed

lemma temp_returns:
  assumes "temp H pl lp0 parse inc past = Some (r, out)"
  shows "\<exists>sts inc' left. out = past @ sts @ left \<and> answered H pl lp0 parse inc sts inc' \<and>
    stops_with H pl lp0 parse inc' r left"
proof -
  let ?P = "\<lambda>H' pl' lp0' parse' inc past res. H' = H \<longrightarrow> pl' = pl \<longrightarrow> lp0' = lp0 \<longrightarrow> parse' = parse \<longrightarrow>
    (\<exists>sts inc' left. snd res = past @ sts @ left \<and> answered H pl lp0 parse inc sts inc' \<and>
      stops_with H pl lp0 parse inc' (fst res) left)"
  have "?P H pl lp0 parse inc past (r, out)"
  proof (rule temp.raw_induct [where P = ?P, OF _ assms], intro impI)
    fix f H' pl' lp0' parse' inc past res
    assume IH: "\<And>H pl lp0 parse inc past res. f H pl lp0 parse inc past = Some res \<Longrightarrow>
        ?P H pl lp0 parse inc past res"
      and eq: "(case next_stream H' inc of
          (None, _) \<Rightarrow> Some (Inr (), past)
        | (Some (Inl e), _) \<Rightarrow> Some (Inl (Raise (HttpsIo e)), past)
        | (Some (Inr k), inc) \<Rightarrow>
            (case tls_accept H' k of
               Inl e \<Rightarrow> Some (Inl (Raise (HttpsTls e)), past)
             | Inr st \<Rightarrow>
                 Option.bind (serve_stream H' pl' lp0' parse' st) (\<lambda>(r, st).
                 case r of
                   Inl e \<Rightarrow> Some (Inl e, past @ [st])
                 | Inr _ \<Rightarrow> f H' pl' lp0' parse' inc (past @ [st])))) = Some res"
      and fixed: "H' = H" "pl' = pl" "lp0' = lp0" "parse' = parse"
    show "\<exists>sts inc' left. snd res = past @ sts @ left \<and> answered H pl lp0 parse inc sts inc' \<and>
      stops_with H pl lp0 parse inc' (fst res) left"
    proof (cases "stops_with H pl lp0 parse inc (fst res) (drop (length past) (snd res)) \<and>
        take (length past) (snd res) = past")
      case True
      then show ?thesis by (metis append_Nil append_take_drop_id answered.none)
    next
      case False
      obtain nx inc1 where nx: "next_stream H inc = (nx, inc1)" by fastforce
      with False eq fixed obtain k where k: "nx = Some (Inr k)"
        by (cases nx; cases "the nx") (auto simp: stops_with_def)
      with nx False eq fixed obtain st where st: "tls_accept H k = Inr st"
        by (cases "tls_accept H k") (auto simp: stops_with_def)
      with nx k eq fixed obtain a st' where m: "next_stream H inc = (Some (Inr k), inc1)"
        "tls_accept H k = Inr st" "serve_stream H pl lp0 parse st = Some (a, st')"
        "(case a of Inl e \<Rightarrow> Some (Inl e, past @ [st']) | Inr _ \<Rightarrow> f H pl lp0 parse inc1 (past @ [st'])) =
          Some res"
        by (auto simp: bind_eq_Some_conv)
      with False have n: "next_stream H inc = (Some (Inr k), inc1)" "tls_accept H k = Inr st"
        "serve_stream H pl lp0 parse st = Some (Inr (), st')" "f H pl lp0 parse inc1 (past @ [st']) = Some res"
        by (cases a; auto simp: stops_with_def)+
      from IH [OF n(4)] obtain sts inc' left where rest:
        "snd res = past @ (st' # sts) @ left" "answered H pl lp0 parse inc1 sts inc'"
        "stops_with H pl lp0 parse inc' (fst res) left" by auto
      from answered.one [OF n(1-3) rest(2)] rest(1,3) show ?thesis by blast
    qed
  qed
  then show ?thesis by simp
qed

text \<open>
  C34. The first connection that fails ends the server: \<open>temp\<close> returns exactly when, behind a run
  of answered connections, the stream of connections ends or fails, a TLS handshake fails, or a
  connection is not answered, and it returns that error. No client is served after another
  client's failure.
\<close>

theorem first_failure_ends_server:
  "temp H pl lp0 parse inc [] = Some (r, out) \<longleftrightarrow>
     (\<exists>sts inc' left. answered H pl lp0 parse inc sts inc' \<and> stops_with H pl lp0 parse inc' r left \<and>
        out = sts @ left)"
  using temp_run [where past = "[]"] temp_returns [where past = "[]"] by fastforce

text \<open>
  The upgrade to HTTP/2 is recognised in one spelling only, although the names of headers do not
  depend on case; any other spelling leaves the version at 1.1.
\<close>

lemma upgrade_spelling:
  "request_version req = HTTP_2 \<longleftrightarrow>
     pr_version req = Some 1 \<and> (bytes_of ''Upgrade'', bytes_of ''h2c'') \<in> set (pr_headers req)"
  by (auto simp: request_version_def filter_empty_conv split: option.splits)

text \<open>Nothing is bound before the address, the key file and the key are in order.\<close>

lemma serving_binds_last:
  assumes "\<not> (\<exists>t. tls_acceptor B (sc_keyfile conf) (sc_pass conf) = Inr t)"
  shows "serving (B\<lparr>bind_listener := b\<rparr>) serve conf = serving B serve conf"
  using assms by (auto simp: serving_def tls_acceptor_def q_res_def bindR_def split: sum.splits option.splits)

end
