(* ===== verification/Wsocket.thy ===== *)
theory Wsocket
  imports Socks5
begin

text \<open>
  \<open>src/wsocket.rs\<close>: one WebSocket connection. The websocket crate, the deserialiser, the UUID
  parser and the modules that are no longer in the source (the resolver, the relay, the two
  error constructors) are parameters; the calls that touch the network act on a state \<open>'w\<close>.
\<close>

record 'u web_socket_request =
  wr_addr :: req_addr
  wr_user :: 'u

definition web_socket_request_new :: "req_addr \<Rightarrow> 'u \<Rightarrow> 'u web_socket_request" where
  "web_socket_request_new a u = \<lparr>wr_addr = a, wr_user = u\<rparr>"

datatype owned_message = BinaryMessage "u8 list" | OtherMessage

record ('w, 'u, 's, 'e) ws_ops =
  ws_reject :: "'w \<Rightarrow> (string + unit) \<times> 'w"
  ws_accept :: "string \<Rightarrow> 'w \<Rightarrow> (string + unit) \<times> 'w"
  ws_receive :: "'w \<Rightarrow> (string + owned_message option) \<times> 'w"
  ws_send :: "u8 list \<Rightarrow> 'w \<Rightarrow> (string + unit) \<times> 'w"
  ws_connect :: "req_addr \<Rightarrow> 'w \<Rightarrow> (socks5_error \<times> 'e + 's) \<times> 'w"
  ws_copy :: "'s \<Rightarrow> 'w \<Rightarrow> (string + unit) \<times> 'w"
  ws_decode :: "u8 list \<Rightarrow> string + 'u web_socket_request"
  ws_parse_uuid :: "rstring \<Rightarrow> string + 'u"
  ws_error :: "string \<Rightarrow> 'e"
  ws_map_err :: "string \<Rightarrow> string \<Rightarrow> 'e"

text \<open>\<open>r.map_my_err(context)?\<close>, for a pure result and for a call.\<close>

definition my_res :: "('w, 'u, 's, 'e) ws_ops \<Rightarrow> string \<Rightarrow> string + 'a \<Rightarrow> ('w, 'e, 'a) io" where
  "my_res W ctx r = (case r of Inl e \<Rightarrow> raise (ws_map_err W ctx e) | Inr x \<Rightarrow> ret x)"

definition my_call :: "('w, 'u, 's, 'e) ws_ops \<Rightarrow> string \<Rightarrow> ('w \<Rightarrow> (string + 'a) \<times> 'w) \<Rightarrow> ('w, 'e, 'a) io" where
  "my_call W ctx m w = (case m w of (r, w') \<Rightarrow> my_res W ctx r w')"

definition connect_and_relay :: "('w, 'u, 's, 'e) ws_ops \<Rightarrow> req_addr \<Rightarrow> ('w, 'e, unit) io" where
  "connect_and_relay W addr w =
     (case ws_connect W addr w of
        (Inr s, w') \<Rightarrow>
          bindE (my_call W ''send back'' (ws_send W [reply_code S5Success])) (\<lambda>_.
          bindE (my_call W ''ws copy'' (ws_copy W s)) (\<lambda>_.
          ret ())) w'
      | (Inl (r, e), w') \<Rightarrow>
          bindE (my_call W ''ws connect'' (ws_send W [reply_code r])) (\<lambda>_.
          raise e) w')"

definition serve_websocket ::
  "('w, 'u, 's, 'e) ws_ops \<Rightarrow> 'e + string list \<Rightarrow> rstring \<Rightarrow> ('w, 'e, unit) io" where
  "serve_websocket W upgrade user =
     bindE (my_res W ''invalid uuid'' (ws_parse_uuid W user)) (\<lambda>enabled_user.
     bindE (case upgrade of Inl e \<Rightarrow> raise e | Inr p \<Rightarrow> ret p) (\<lambda>protocols.
     if ''rust-websocket'' \<notin> set protocols then
       bindE (my_call W ''serve_websocket'' (ws_reject W)) (\<lambda>_. ret ())
     else
       bindE (my_call W ''ws accept'' (ws_accept W ''rust-websocket'')) (\<lambda>_.
       bindE (my_call W ''into_future'' (ws_receive W)) (\<lambda>item.
       case item of
         Some (BinaryMessage bs) \<Rightarrow>
           bindE (my_res W ''deserialize'' (ws_decode W bs)) (\<lambda>req.
           if wr_user req \<noteq> enabled_user then raise (ws_error W ''User uuid does not match'')
           else connect_and_relay W (wr_addr req))
       | _ \<Rightarrow> raise (ws_error W ''Not processable'')))))"

text \<open>
  A stranger gets nothing: while no message decodes to a request of the enabled user, the
  outcome does not depend on what connecting and relaying would do, so neither is ever called,
  and the exchange ends with an error unless the upgrade was rejected for its protocol.
\<close>

lemma strangers_get_no_connection:
  assumes "ws_parse_uuid W user = Inr enabled"
    and "\<And>bs req. ws_decode W bs = Inr req \<Longrightarrow> wr_user req \<noteq> enabled"
  shows "serve_websocket (W\<lparr>ws_connect := c, ws_copy := d\<rparr>) upgrade user w =
      serve_websocket W upgrade user w \<and>
    (fst (serve_websocket W upgrade user w) = Inr () \<longrightarrow>
      (\<exists>ps. upgrade = Inr ps \<and> ''rust-websocket'' \<notin> set ps))"
  using assms
  by (auto simp: serve_websocket_def bindE_def my_res_def my_call_def
      split: sum.splits prod.splits option.splits owned_message.splits)

text \<open>
  A network in memory for one client that sends the user 2 and an address; the state counts
  the connections made.
\<close>

definition ws_mem :: "(nat, nat, unit, string) ws_ops" where
  "ws_mem =
     \<lparr>ws_reject = \<lambda>w. (Inr (), w), ws_accept = \<lambda>_ w. (Inr (), w),
      ws_receive = \<lambda>w. (Inr (Some (BinaryMessage [2])), w), ws_send = \<lambda>_ w. (Inr (), w),
      ws_connect = \<lambda>_ w. (Inr (), Suc w), ws_copy = \<lambda>_ w. (Inr (), w),
      ws_decode = \<lambda>_. Inr (web_socket_request_new default_req_addr 2),
      ws_parse_uuid = \<lambda>s. Inr (length s), ws_error = \<lambda>e. e, ws_map_err = \<lambda>c e. c @ e\<rparr>"

end
