(* ===== verification/Spec2Isabelle.thy ===== *)
theory Spec2Isabelle
  imports Fair_Tasks Future_Ext Http_Parse Tls_Stream Stream_Wrap
    Actix_App Rocks_Listener Https_Correct Wsocket
begin

text \<open>
  A model of \<^verbatim>\<open>rocks\<close>, a SOCKS5 proxy in Rust (paths below are under \<^verbatim>\<open>src/src/\<close>).

  The program. \<^verbatim>\<open>main.rs\<close> reads a configuration, binds a listener and spawns one task per
  accepted client. The task (\<^verbatim>\<open>client_manager.rs\<close>) takes the client through the SOCKS5
  handshake (\<^verbatim>\<open>socks5/\<close>, \<^verbatim>\<open>req_addr.rs\<close>), opens a connection to the requested address
  (\<^verbatim>\<open>outgoing.rs\<close>), sends the final reply and relays bytes in both directions
  (\<^verbatim>\<open>connection.rs\<close>). The modules for the program's own tunnel protocol (\<^verbatim>\<open>rocks/\<close>,
  \<^verbatim>\<open>http_parse/\<close>, \<^verbatim>\<open>tls_stream.rs\<close>, \<^verbatim>\<open>stream_wrap.rs\<close>, \<^verbatim>\<open>future_ext.rs\<close>, \<^verbatim>\<open>wsocket.rs\<close>,
  \<^verbatim>\<open>hyper_tls_server.rs\<close>) are in the source but not compiled into the binary; they are modelled
  as written.

  The theories.

  \<^item> \<open>Prelude\<close>: words, results (\<open>res\<close>), stateful computations (\<open>io\<close>), panics, slices. An
    \<open>Err\<close> is \<open>Raise\<close>, a panic is \<open>Panic\<close>; both are values, so that every early return and
    every out-of-range access is a branch of the model.
  \<^item> \<open>Std_Net\<close>, \<open>Std_Ip\<close>: what the program uses of Rust's standard library: addresses, the
    IP parser, UTF-8 validity, decimal printing, I/O error kinds. \<open>Ip_Text\<close>: the parser reads
    back every address that is written out.
  \<^item> \<open>Errors\<close> (\<^verbatim>\<open>error.rs\<close>, the error type of \<^verbatim>\<open>outgoing.rs\<close>), \<open>Config\<close> (\<^verbatim>\<open>config.rs\<close>),
    \<open>Req_Addr\<close> (\<^verbatim>\<open>req_addr.rs\<close>: \<open>req_addr\<close> and its parsers, and \<open>addr_wire\<close>, the encoding of
    RFC 1928 they are compared to).
  \<^item> \<open>Transport\<close>: tokio's TCP stream as a record of calls, with the contracts \<open>byte_stream\<close>
    (what a read or write that returned did, in terms of the bytes received and sent) and
    \<open>scripted_stream\<close> (a peer that has sent a fixed input), and a stream in memory.
  \<^item> \<open>Socks5\<close> (\<^verbatim>\<open>socks5/mod.rs\<close>, \<^verbatim>\<open>socks5/incoming.rs\<close>): the record \<open>socks5_connected\<close> and every
    method on it, with the buffers and their sizes as in the source.
    \<open>Socks5_Reply\<close> proves the reply builder against \<open>reply_wire\<close>; \<open>Socks5_Correct\<close> what each
    method does over any byte stream, whatever fails; \<open>Socks5_Exchange\<close> a simulation of any
    scripted stream by the stream in memory, and whole exchanges computed there;
    \<open>Socks5_Properties\<close> the guarantees of the handshake. \<open>Handshake_Steps\<close>: the handshake as
    the tree of the reads and writes it awaits (the \<open>_h\<close> functions), shown to be the same,
    and what it has written when it is cut off at any of them.
  \<^item> \<open>Outgoing\<close> (\<^verbatim>\<open>outgoing.rs\<close>): resolution, connect, the classification of its errors.
  \<^item> \<open>Connection\<close> (\<^verbatim>\<open>connection.rs\<close>): \<open>bicopy\<close> splits the two streams, makes a copy of each pair
    of halves and joins them. \<open>join!\<close> of two copies is the parameter, over any two copies however
    they are wired, with the contract \<open>relay_stream\<close>. \<open>Relay_Steps\<close>: \<open>bicopy\<close> as the polls of its
    two copies in any order; one poll is the parameter, with the contract \<open>copy_future\<close>, and
    \<open>draining_copy\<close> where it is known what there is to be read. Every run of polls is shown to be
    one step with a pair of copies that keeps \<open>relay_stream\<close> and that reads, when both succeed,
    all there was.
  \<^item> \<open>Client_Manager\<close> (\<^verbatim>\<open>client_manager.rs\<close>, the trait of \<^verbatim>\<open>incoming.rs\<close>): the task over the
    contract \<open>incoming_client_contract\<close>, which the SOCKS5 client is shown to satisfy.
    \<open>Tunnel\<close>: the task of a SOCKS5 client as a whole.
  \<^item> \<open>Server\<close> (\<^verbatim>\<open>main.rs\<close>, \<open>Socks5Incoming\<close>, \<open>get_incoming\<close>): start-up and the accept loop.
  \<^item> \<open>Task_Steps\<close> (\<^verbatim>\<open>client_manager.rs\<close> again, and the loop of \<^verbatim>\<open>main.rs\<close>): the task as the state
    machine the executor sees, one step per awaited call, shown to refine the handler; and
    \<open>program_step\<close>, the running program: accept a client, run a step of some task, or stop.
    \<open>Program\<close>: what holds in every run of the SOCKS5 server, whatever the interleaving.
    \<open>Running_Program\<close> (\<open>await_program_step\<close>) refines these steps to single awaited calls, those
    of the handshakes and the polls of the relays included, and keeps an invariant of every
    task; \<open>Running_Correct\<close> has what follows for every run, \<open>Task_Progress\<close> that each task can
    end without the others, \<open>Fair_Tasks\<close> that it does in every infinite run that is fair to it
    (no labels: fairness is about changes of the task's own state, \<open>moves\<close>), over the contract
    \<open>quiet_copy\<close> (a poll between two peers that are done makes progress).
  \<^item> \<open>Future_Ext\<close> (\<^verbatim>\<open>future_ext.rs\<close>): \<open>alt\<close>, \<open>join\<close>, \<open>join_on_ok\<close>; the contract \<open>future\<close>
    counts polls, and each combinator of two futures is shown to be a future again.
  \<^item> \<open>Line_Parser\<close>, \<open>Http_Parse\<close> (\<^verbatim>\<open>http_parse/\<close>): the line splitter against \<open>split_crlf\<close>, and
    what the head parser gives to \<open>httparse\<close>.
  \<^item> \<open>Tls_Stream\<close> (\<^verbatim>\<open>tls_stream.rs\<close>): the non-blocking stream over the contracts
    \<open>tls_session\<close> (what the session accepts) and \<open>tls_progress\<close> (why the loops end).
  \<^item> \<open>Stream_Wrap\<close> (\<^verbatim>\<open>stream_wrap.rs\<close>), \<open>Wsocket\<close> (\<^verbatim>\<open>wsocket.rs\<close>); \<open>Std_Num\<close> is Rust's parser of
    unsigned numbers.
  \<^item> In \<^verbatim>\<open>rocks/\<close>: \<open>Connection_Manager\<close> (\<^verbatim>\<open>connection_manager.rs\<close>), \<open>Actix_App\<close> (\<^verbatim>\<open>actix_app.rs\<close>:
    packets, and the request handler as a future over the contract \<open>timeout_contract\<close>),
    \<open>Hyper_Service\<close> (\<^verbatim>\<open>hyper_service_helper.rs\<close>: closures as code with captured state),
    \<open>Hyper_Svr\<close> (\<^verbatim>\<open>hyper_svr.rs\<close>: the pages, and the wrapper tied to a thread) and
    \<open>Rocks_Listener\<close> (\<^verbatim>\<open>mod.rs\<close>: the listener and its tasks).
  \<^item> \<open>Https_Server\<close> (\<^verbatim>\<open>hyper_tls_server.rs\<close>) and \<open>Https_Correct\<close>: the test server, whose read loop
    rests on the contracts \<open>line_source\<close> (the line parser) and \<open>chunk_reader\<close> (the stream).

  What is shown. The handshake returns a request only for an address that the client encoded, as
  the parsers read it, writes only the method
  choice before that, and panics on two kinds of input only; a client is refused by the reply for
  what failed, or told of a success only after the connect and then relayed; the relay keeps the
  bytes, at every moment but for those in its buffers, and a success of it means that everything
  was delivered; the accept loop spawns every client once. In
  every interleaving of the awaited calls of all tasks each behaves as it would alone, is told
  of its connection before it is relayed, and at no moment more than its state allows, relays
  exactly what followed its request, can end by its own steps alone, and ends under every schedule
  that is fair to it once its peers are done, so that a client that can be served is,
  with nothing of what it sent left behind unless an error is logged
  (\<open>fair_tunnel_delivers\<close>); a handshake takes at most six calls. Tasks hold only
  well-typed addresses, and an address written in the configuration is the one that is used.
  Where the code departs from the protocol the departure is a theorem: the port of an IPv4
  request is read from the wrong bytes (\<open>parse_v4_port_slip\<close>;
  \<open>as_parsed\<close> is the address the code sees), names of 254 and 255 bytes panic, an
  unknown address type is answered twice, two Linux error numbers are exchanged, one failed
  accept ends the server and drops the clients being served, the end of one direction of a relay
  is not forwarded (\<open>half_close_never_ends\<close>), the HTTP head parser loses bytes of a
  line that arrives in pieces, the HTTPS test server never returns from a head that is not
  completed, and the pages of the tunnel are served on one thread only.

  Loops. The accept loops, the two TLS loops, the read loops of the HTTPS server and the
  loop over a request's body may run
  forever: they are partial functions with value \<open>None\<close> then, and their return, or that they
  do not return, is a theorem (\<open>accept_loop_exact\<close>, \<open>rocks_listener_exact\<close>,
  \<open>tls_operations_return\<close>, \<open>unfinished_head_hangs_server\<close>). All other loops are structural or
  have a measure; there is no fuel. The counts of polls and steps in \<open>drive\<close>, \<open>program_step\<close>
  and \<open>await_step\<close> are part of the statements, which hold for every count.

  Parameters. tokio, the operating system's resolver and \<open>connect\<close>, the TOML parser, rustls,
  native-tls, httparse, the http crate, hyper, actix, the channel and timer of the tunnel's
  handler, the UUID parser and the functions of modules that are no longer in the source are
  arguments of the definitions that use them. The calls of a run are those whose await
  returned; a task whose call never completes is one that takes no further step. The tasks of
  the server share the network only, which \<open>program_step\<close> passes from task to task.

  Not modelled: logging, except for the one log statement that unwraps an error
  (\<open>debug_on\<close>) and the errors the managers log; the command line; the derived \<open>Display\<close> and
  serde code; code in comments (most of \<^verbatim>\<open>config.rs\<close>); the responders of \<^verbatim>\<open>rocks/actix_app.rs\<close>,
  which are actix's. What is left of the source beyond these is imports, trait declarations and
  one-line forwarders.
\<close>

end
